theory Spec2Isabelle
  imports Complex_Main "HOL-Library.Multiset"
begin

section \<open>WhenWhere: city search, pin set and derived-time formatting\<close>

text \<open>
  A JavaScript string is modelled as a \<^typ>\<open>string\<close> whose characters are the code
  units 0..255 (ASCII and Latin-1); the built-ins \<open>trim\<close>, \<open>toLowerCase\<close>,
  \<open>includes\<close> and the regular-expression classes \<open>\s\<close> and \<open>\d\<close> are
  modelled on that range.  JavaScript numbers that hold minute counts are \<^typ>\<open>int\<close>.
\<close>

subsection \<open>Data model (\<open>@/data/cities\<close>)\<close>

record City =
  name :: string
  country :: string
  tz :: string
  lat :: real
  lon :: real

subsection \<open>String built-ins\<close>

text \<open>White space as \<open>trim\<close> and the class \<open>\s\<close> see it: tab, line feed, vertical tab,
  form feed, carriage return, space and no-break space.\<close>

definition is_space :: "char \<Rightarrow> bool" where
  "is_space c = (let n = (of_char c :: nat) in (9 \<le> n \<and> n \<le> 13) \<or> n = 32 \<or> n = 160)"

text \<open>The class \<open>\d\<close>: the ten ASCII digits.\<close>

definition is_digit :: "char \<Rightarrow> bool" where
  "is_digit c = (let n = (of_char c :: nat) in 48 \<le> n \<and> n \<le> 57)"

definition trim :: "string \<Rightarrow> string" where
  "trim s = rev (dropWhile is_space (rev (dropWhile is_space s)))"

definition lower_char :: "char \<Rightarrow> char" where
  "lower_char c =
     (let n = (of_char c :: nat)
      in if (65 \<le> n \<and> n \<le> 90) \<or> (192 \<le> n \<and> n \<le> 222 \<and> n \<noteq> 215)
         then char_of (n + 32) else c)"

definition toLowerCase :: "string \<Rightarrow> string" where
  "toLowerCase s = map lower_char s"

fun starts_with :: "string \<Rightarrow> string \<Rightarrow> bool" where
  "starts_with s [] = True"
| "starts_with [] (q # qs) = False"
| "starts_with (c # s) (q # qs) = (c = q \<and> starts_with s qs)"

fun includes_str :: "string \<Rightarrow> string \<Rightarrow> bool" where
  "includes_str [] q = (q = [])"
| "includes_str (c # s) q = (starts_with (c # s) q \<or> includes_str s q)"

text \<open>\<open>parseInt(s, 10)\<close> on a string of digits.\<close>

definition parseInt :: "string \<Rightarrow> int" where
  "parseInt s = fold (\<lambda>c acc. acc * 10 + (int (of_char c) - 48)) s 0"

subsection \<open>\<open>parseOffsetQuery\<close> (\<open>CitySearch\<close>)\<close>

text \<open>
  The match of \<open>/^(?:utc|gmt)\s*([+-])?\s*(\d{1,2})(?::(\d{2}))?$/\<close> against the whole
  string, returning the capture groups \<open>m[1]\<close>, \<open>m[2]\<close>, \<open>m[3]\<close> (\<open>None\<close> for a group
  that did not take part).  The character classes of consecutive pieces are disjoint,
  so the greedy reading below is the only possible match.
\<close>

definition offset_regex :: "string \<Rightarrow> (string option \<times> string \<times> string option) option" where
  "offset_regex q =
     (if \<not> (starts_with q ''utc'' \<or> starts_with q ''gmt'') then None
      else
        let r1 = dropWhile is_space (drop 3 q);
            m1 = (case r1 of [] \<Rightarrow> None
                  | c # t \<Rightarrow> if c = CHR ''+'' \<or> c = CHR ''-'' then Some [c] else None);
            r2 = (case m1 of None \<Rightarrow> r1 | Some s \<Rightarrow> drop 1 r1);
            r3 = dropWhile is_space r2;
            m2 = take 2 (takeWhile is_digit r3);
            r4 = drop (length m2) r3
        in if m2 = [] then None
           else (case r4 of
                   [] \<Rightarrow> Some (m1, m2, None)
                 | [c, a, b] \<Rightarrow>
                     if c = CHR '':'' \<and> is_digit a \<and> is_digit b then Some (m1, m2, Some [a, b])
                     else None
                 | _ \<Rightarrow> None))"

text \<open>The product \<open>sign * (hours * 60 + mins)\<close> is \<open>-0\<close> for \<open>utc-0\<close>; \<open>-0 === 0\<close>
  holds, so the integer 0 stands for both.\<close>

definition parseOffsetQuery :: "string \<Rightarrow> int option" where
  "parseOffsetQuery q =
     (case offset_regex q of
        None \<Rightarrow> if q = ''utc'' \<or> q = ''gmt'' then Some 0 else None
      | Some (m1, m2, m3) \<Rightarrow>
          let sign = (if m1 = Some ''-'' then - 1 else 1);
              hours = parseInt m2;
              mins = (case m3 of Some s \<Rightarrow> parseInt s | None \<Rightarrow> 0)
          in Some (sign * (hours * 60 + mins)))"

subsection \<open>The texts of the pattern, piece by piece\<close>

text \<open>
  The language of the regular expression of \<open>parseOffsetQuery\<close>, read off its pieces:
  the literal \<open>utc\<close> or \<open>gmt\<close>, then a tail made of white space (\<open>\s*\<close>), an optional
  sign, white space again (the second \<open>\s*\<close>), one or two hour digits and an optional
  \<open>:MM\<close>.
\<close>

record offset_tail =
  gap1 :: string
  sign_txt :: string
  gap2 :: string
  hours_txt :: string
  minutes_txt :: "string option"

definition is_literal :: "string \<Rightarrow> bool" where
  "is_literal l = (l = ''utc'' \<or> l = ''gmt'')"

definition wf_tail :: "offset_tail \<Rightarrow> bool" where
  "wf_tail t =
     (list_all is_space (gap1 t) \<and>
      (sign_txt t = '''' \<or> sign_txt t = ''+'' \<or> sign_txt t = ''-'') \<and>
      list_all is_space (gap2 t) \<and>
      (length (hours_txt t) = 1 \<or> length (hours_txt t) = 2) \<and>
      list_all is_digit (hours_txt t) \<and>
      (case minutes_txt t of None \<Rightarrow> True
       | Some m \<Rightarrow> length m = 2 \<and> list_all is_digit m))"

definition render_tail :: "offset_tail \<Rightarrow> string" where
  "render_tail t =
     gap1 t @ sign_txt t @ gap2 t @ hours_txt t @
     (case minutes_txt t of None \<Rightarrow> '''' | Some m \<Rightarrow> '':'' @ m)"

definition digits_value :: "string \<Rightarrow> int" where
  "digits_value s = (\<Sum>i < length s. (int (of_char (s ! i)) - 48) * 10 ^ (length s - 1 - i))"

definition signed_minutes :: "offset_tail \<Rightarrow> int" where
  "signed_minutes t =
     (if sign_txt t = ''-'' then - 1 else 1) *
     (digits_value (hours_txt t) * 60 +
      (case minutes_txt t of None \<Rightarrow> 0 | Some m \<Rightarrow> digits_value m))"

subsection \<open>The offset grammar, as the specification words it\<close>

text \<open>
  Section 4.1 of the specification: an optional literal \<open>utc\<close> or \<open>gmt\<close>, optional white
  space, an optional sign, one or two hour digits, an optional \<open>:MM\<close> of two digits.  The
  literal may be missing, and there is no white space between the sign and the hours.
  The text is the literal followed by the rendered tail; its value is \<open>signed_minutes\<close>.
\<close>

definition spec_offset_text :: "string \<Rightarrow> offset_tail \<Rightarrow> bool" where
  "spec_offset_text l t =
     ((l = '''' \<or> l = ''utc'' \<or> l = ''gmt'') \<and>
      list_all is_space (gap1 t) \<and>
      (sign_txt t = '''' \<or> sign_txt t = ''+'' \<or> sign_txt t = ''-'') \<and>
      gap2 t = '''' \<and>
      (length (hours_txt t) = 1 \<or> length (hours_txt t) = 2) \<and>
      list_all is_digit (hours_txt t) \<and>
      (case minutes_txt t of None \<Rightarrow> True
       | Some m \<Rightarrow> length m = 2 \<and> list_all is_digit m))"

subsection \<open>\<open>groupByCountry\<close> (\<open>CitySearch\<close>)\<close>

text \<open>A JavaScript \<open>Map\<close> keeps its entries in insertion order: an association list.\<close>

type_synonym GroupedResults = "(string \<times> City list) list"

text \<open>
  The body of the loop: \<open>map.get(city.country)\<close>; when an array is there, \<open>push\<close> grows it
  in place (the entry keeps its position); otherwise \<open>map.set\<close> adds a new entry at the end.
\<close>

definition group_step :: "City \<Rightarrow> GroupedResults \<Rightarrow> GroupedResults" where
  "group_step city m =
     (case map_of m (country city) of
        Some existing \<Rightarrow>
          map (\<lambda>(k, v). if k = country city then (k, v @ [city]) else (k, v)) m
      | None \<Rightarrow> m @ [(country city, [city])])"

definition groupByCountry :: "City list \<Rightarrow> GroupedResults" where
  "groupByCountry cities = fold group_step cities []"

subsection \<open>The \<open>results\<close> memo of \<open>CitySearch\<close>\<close>

text \<open>
  What \<open>DateTime.fromMillis(now).setZone(tz).offset\<close> can do: throw, give \<open>NaN\<close> (an
  invalid zone), or give the offset in minutes.  The time-zone library is a parameter.
\<close>

datatype zone_lookup = Throws | NotANumber | Minutes int

type_synonym zone_db = "int \<Rightarrow> string \<Rightarrow> zone_lookup"

text \<open>The callback of \<open>CITIES.filter\<close>, with its \<open>try\<close>/\<open>catch\<close>; \<open>NaN === n\<close> is false.\<close>

definition offset_matches :: "zone_db \<Rightarrow> int \<Rightarrow> int \<Rightarrow> City \<Rightarrow> bool" where
  "offset_matches zones now offsetMinutes c =
     (case zones now (tz c) of
        Throws \<Rightarrow> False
      | NotANumber \<Rightarrow> False
      | Minutes offset \<Rightarrow> offset = offsetMinutes)"

text \<open>The first loop over \<open>CITIES\<close>, carrying \<open>cityMatches\<close> and \<open>seen\<close>.\<close>

fun name_loop :: "string \<Rightarrow> City list \<Rightarrow> City list \<times> string set \<Rightarrow> City list \<times> string set" where
  "name_loop q [] st = st"
| "name_loop q (c # cs) (cityMatches, seen) =
     (if includes_str (toLowerCase (name c)) q
      then name_loop q cs (cityMatches @ [c], insert (name c) seen)
      else name_loop q cs (cityMatches, seen))"

text \<open>The second loop over \<open>CITIES\<close>, carrying \<open>countryMatches\<close>.\<close>

fun country_loop :: "string \<Rightarrow> string set \<Rightarrow> City list \<Rightarrow> City list \<Rightarrow> City list" where
  "country_loop q seen [] countryMatches = countryMatches"
| "country_loop q seen (c # cs) countryMatches =
     (if name c \<notin> seen \<and> includes_str (toLowerCase (country c)) q
      then country_loop q seen cs (countryMatches @ [c])
      else country_loop q seen cs countryMatches)"

record SearchResult =
  results :: "City list"
  grouped :: GroupedResults
  showGroups :: bool

text \<open>\<open>CITIES\<close> is the catalog, \<open>now\<close> the value \<open>Date.now()\<close> returns, read once.\<close>

definition search :: "City list \<Rightarrow> zone_db \<Rightarrow> int \<Rightarrow> string \<Rightarrow> SearchResult" where
  "search CITIES zones now query =
     (let q = toLowerCase (trim query)
      in if length q = 0 then \<lparr>results = [], grouped = [], showGroups = False\<rparr>
         else
           (case parseOffsetQuery q of
              Some offsetMinutes \<Rightarrow>
                let matched = take 12 (filter (offset_matches zones now offsetMinutes) CITIES)
                in \<lparr>results = matched, grouped = groupByCountry matched, showGroups = True\<rparr>
            | None \<Rightarrow>
                let (cityMatches, seen) = name_loop q CITIES ([], {});
                    countryMatches = country_loop q seen CITIES [];
                    combined = take 12 (cityMatches @ countryMatches);
                    hasCountryMatches = (length countryMatches > 0);
                    multipleCountries = (card (set (map country combined)) > 1)
                in \<lparr>results = combined, grouped = groupByCountry combined,
                    showGroups = (hasCountryMatches \<or> multipleCountries)\<rparr>))"

text \<open>\<open>flatResults\<close>: the sequence the arrow keys and Enter walk through.\<close>

definition flatResults :: "SearchResult \<Rightarrow> City list" where
  "flatResults r = (if \<not> showGroups r then results r else concat (map snd (grouped r)))"

subsection \<open>Search and grouping, as the specification words them\<close>

text \<open>Containment of a query in a text, ignoring case.\<close>

definition ci_contains :: "string \<Rightarrow> string \<Rightarrow> bool" where
  "ci_contains text needle = includes_str (toLowerCase text) (toLowerCase needle)"

text \<open>The partition by country: countries in the order of their first city, the cities of
  one country in their order in the list.\<close>

function by_country :: "City list \<Rightarrow> GroupedResults" where
  "by_country [] = []"
| "by_country (c # cs) =
     (country c, c # filter (\<lambda>d. country d = country c) cs) #
     by_country (filter (\<lambda>d. country d \<noteq> country c) cs)"
  by pat_completeness auto
termination
  by (relation "measure length") (auto simp: less_Suc_eq_le)

text \<open>The cities of each country stand next to each other: once a run of one country
  has ended, that country does not come back.\<close>

fun countries_adjacent :: "City list \<Rightarrow> bool" where
  "countries_adjacent [] = True"
| "countries_adjacent (c # cs) =
     (list_all (\<lambda>d. country d \<noteq> country c) (dropWhile (\<lambda>d. country d = country c) cs) \<and>
      countries_adjacent cs)"

definition name_matches :: "City list \<Rightarrow> string \<Rightarrow> City list" where
  "name_matches CITIES query = filter (\<lambda>c. ci_contains (name c) query) CITIES"

definition country_matches :: "City list \<Rightarrow> string \<Rightarrow> City list" where
  "country_matches CITIES query =
     filter (\<lambda>c. c \<notin> set (name_matches CITIES query) \<and> ci_contains (country c) query) CITIES"

definition free_text_matches :: "City list \<Rightarrow> string \<Rightarrow> City list" where
  "free_text_matches CITIES query =
     take 12 (name_matches CITIES query @ country_matches CITIES query)"

text \<open>Flattening a grouped list: \<open>grouped.flatMap((g) => g.cities)\<close>.\<close>

abbreviation (input) flat :: "GroupedResults \<Rightarrow> City list" where
  "flat g \<equiv> concat (map snd g)"

text \<open>Two notions for the proof about the loop of \<open>groupByCountry\<close>: the entries of the map
  after the remaining cities were pushed, and the cities whose country has no entry yet.\<close>

definition grow :: "City list \<Rightarrow> GroupedResults \<Rightarrow> GroupedResults" where
  "grow cs m = map (\<lambda>(k, v). (k, v @ filter (\<lambda>c. country c = k) cs)) m"

definition fresh :: "GroupedResults \<Rightarrow> City list \<Rightarrow> City list" where
  "fresh m cs = filter (\<lambda>c. country c \<notin> fst ` set m) cs"

subsection \<open>A small catalog for the examples\<close>

definition ex_paris :: City where
  "ex_paris = \<lparr>name = ''Paris'', country = ''France'', tz = ''Europe/Paris'', lat = 48.86, lon = 2.35\<rparr>"

definition ex_berlin :: City where
  "ex_berlin = \<lparr>name = ''Berlin'', country = ''Germany'', tz = ''Europe/Berlin'', lat = 52.52, lon = 13.4\<rparr>"

definition ex_marseille :: City where
  "ex_marseille = \<lparr>name = ''Marseille'', country = ''France'', tz = ''Europe/Paris'', lat = 43.3, lon = 5.37\<rparr>"

definition ex_tokyo :: City where
  "ex_tokyo = \<lparr>name = ''Tokyo'', country = ''Japan'', tz = ''Asia/Tokyo'', lat = 35.68, lon = 139.69\<rparr>"

definition ex_london :: City where
  "ex_london = \<lparr>name = ''London'', country = ''United Kingdom'', tz = ''Europe/London'', lat = 51.51, lon = - 0.13\<rparr>"

definition ex_atlantis :: City where
  "ex_atlantis = \<lparr>name = ''Atlantis'', country = ''Nowhere'', tz = ''Lost/Atlantis'', lat = 0, lon = 0\<rparr>"

definition ex_catalog :: "City list" where
  "ex_catalog = [ex_paris, ex_berlin, ex_marseille, ex_tokyo, ex_london, ex_atlantis]"

text \<open>A time-zone library for the examples: two zones at +60, one at +540, one at 0; a zone
  whose lookup throws; every other identifier is invalid.\<close>

definition ex_zones :: zone_db where
  "ex_zones now z =
     (if z = ''Europe/Paris'' \<or> z = ''Europe/Berlin'' then Minutes 60
      else if z = ''Asia/Tokyo'' then Minutes 540
      else if z = ''Europe/London'' then Minutes 0
      else if z = ''Lost/Atlantis'' then Throws
      else NotANumber)"

subsection \<open>The pin set and the hidden cities (\<open>TimezoneExplorer\<close>)\<close>

text \<open>The state of the component that the claims are about.\<close>

record Explorer =
  pinnedCities :: "City list"
  hiddenCities :: "string set"
  highlightedCities :: "City list"
  homeTz :: string

text \<open>\<open>Array.prototype.findIndex\<close>: the first index whose element passes, or -1.\<close>

fun findIndex_at :: "int \<Rightarrow> ('a \<Rightarrow> bool) \<Rightarrow> 'a list \<Rightarrow> int" where
  "findIndex_at k P [] = - 1"
| "findIndex_at k P (x # xs) = (if P x then k else findIndex_at (k + 1) P xs)"

definition findIndex :: "('a \<Rightarrow> bool) \<Rightarrow> 'a list \<Rightarrow> int" where
  "findIndex P xs = findIndex_at 0 P xs"

text \<open>\<open>Array.prototype.filter\<close> with a callback that also reads the index.\<close>

fun filter_index_at :: "int \<Rightarrow> ('a \<Rightarrow> int \<Rightarrow> bool) \<Rightarrow> 'a list \<Rightarrow> 'a list" where
  "filter_index_at k f [] = []"
| "filter_index_at k f (x # xs) =
     (if f x k then x # filter_index_at (k + 1) f xs else filter_index_at (k + 1) f xs)"

definition filter_index :: "('a \<Rightarrow> int \<Rightarrow> bool) \<Rightarrow> 'a list \<Rightarrow> 'a list" where
  "filter_index f xs = filter_index_at 0 f xs"

text \<open>The updater that \<open>handleCityPin\<close> passes to \<open>setPinnedCities\<close>.\<close>

definition pin_update :: "City \<Rightarrow> City list \<Rightarrow> City list" where
  "pin_update city prev =
     (let exists = findIndex (\<lambda>c. name c = name city) prev
      in if exists \<ge> 0 then filter_index (\<lambda>_ i. i \<noteq> exists) prev
         else if length prev \<ge> 4 then prev
         else prev @ [city])"

text \<open>The updater that \<open>handleCityPin\<close> passes to \<open>setHiddenCities\<close>.\<close>

definition unhide_update :: "City \<Rightarrow> string set \<Rightarrow> string set" where
  "unhide_update city prev =
     (if name city \<notin> prev then prev else (let next = prev in next - {name city}))"

definition handleCityPin :: "Explorer \<Rightarrow> City \<Rightarrow> Explorer" where
  "handleCityPin st city =
     st\<lparr>pinnedCities := pin_update city (pinnedCities st),
        hiddenCities := unhide_update city (hiddenCities st)\<rparr>"

text \<open>\<open>handleSelect\<close> of \<open>CitySearch\<close>; its \<open>onSelect\<close> is \<open>handleCityPin\<close>.\<close>

definition handleSelect :: "Explorer \<Rightarrow> City \<Rightarrow> Explorer" where
  "handleSelect st city =
     (if \<not> list_ex (\<lambda>c. name c = name city) (pinnedCities st) then handleCityPin st city else st)"

text \<open>The button \<open>Clear all\<close>: \<open>setPinnedCities([])\<close>.\<close>

definition clearAll :: "Explorer \<Rightarrow> Explorer" where
  "clearAll st = st\<lparr>pinnedCities := []\<rparr>"

text \<open>The button of the tooltip that removes a city from the map.\<close>

definition hideFromMap :: "Explorer \<Rightarrow> City \<Rightarrow> Explorer" where
  "hideFromMap st city =
     (let isPinned = list_ex (\<lambda>c. name c = name city) (pinnedCities st);
          st1 = (if isPinned then handleCityPin st city else st)
      in st1\<lparr>hiddenCities := insert (name city) (hiddenCities st1)\<rparr>)"

text \<open>The user's actions on the pin set: a click on the map or on the remove button of a
  card (\<open>handleCityPin\<close>), a choice in the search box, \<open>Clear all\<close>, and the tooltip's
  remove button.\<close>

datatype action = Pin City | Select City | ClearAll | Hide City

fun step :: "Explorer \<Rightarrow> action \<Rightarrow> Explorer" where
  "step st (Pin city) = handleCityPin st city"
| "step st (Select city) = handleSelect st city"
| "step st ClearAll = clearAll st"
| "step st (Hide city) = hideFromMap st city"

text \<open>The state after \<open>useState\<close>, before the URL is read.\<close>

definition initial :: Explorer where
  "initial = \<lparr>pinnedCities = [], hiddenCities = {}, highlightedCities = [], homeTz = ''Europe/Sarajevo''\<rparr>"

text \<open>\<open>visibleCities\<close>; \<open>FEATURED\<close> is the set \<open>FEATURED_CITY_NAMES\<close> of the catalog module.\<close>

definition visibleCities :: "City list \<Rightarrow> string set \<Rightarrow> Explorer \<Rightarrow> City list" where
  "visibleCities CITIES FEATURED st =
     (let pinnedNames = set (map name (pinnedCities st));
          highlightedNames = set (map name (highlightedCities st))
      in filter (\<lambda>c. name c \<in> highlightedNames \<or> name c \<in> pinnedNames \<or>
                      (name c \<notin> hiddenCities st \<and> name c \<in> FEATURED)) CITIES)"

text \<open>Removing the first element that passes a test: what the toggle does to the pin list.\<close>

fun remove_first :: "('a \<Rightarrow> bool) \<Rightarrow> 'a list \<Rightarrow> 'a list" where
  "remove_first P [] = []"
| "remove_first P (x # xs) = (if P x then xs else x # remove_first P xs)"

text \<open>The invariant of the pinned set: at most four cities, no name twice.\<close>

definition pin_inv :: "Explorer \<Rightarrow> bool" where
  "pin_inv st = (length (pinnedCities st) \<le> 4 \<and> distinct (map name (pinnedCities st)))"

subsection \<open>The URL: written by the sync effect, read by the mount effect\<close>

text \<open>\<open>Array.prototype.join\<close> and \<open>String.prototype.split\<close> with a one-character separator.\<close>

fun join :: "string \<Rightarrow> string list \<Rightarrow> string" where
  "join sep [] = []"
| "join sep [x] = x"
| "join sep (x # y # ys) = x @ sep @ join sep (y # ys)"

fun split_on :: "char \<Rightarrow> string \<Rightarrow> string list" where
  "split_on sep [] = [[]]"
| "split_on sep (c # cs) =
     (if c = sep then [] # split_on sep cs
      else (case split_on sep cs of [] \<Rightarrow> [[c]] | p # ps \<Rightarrow> (c # p) # ps))"

text \<open>\<open>name.replace(/ /g, "%20")\<close>.\<close>

definition encode_spaces :: "string \<Rightarrow> string" where
  "encode_spaces s = concat (map (\<lambda>c. if c = CHR '' '' then ''%20'' else [c]) s)"

text \<open>The sync effect: the string handed to \<open>history.replaceState\<close>.\<close>

definition syncUrl :: "string \<Rightarrow> City list \<Rightarrow> string \<Rightarrow> string" where
  "syncUrl pathname pinned home =
     (let parts0 = [];
          parts1 = (if length pinned > 0
                    then parts0 @ [''compare='' @ join '','' (map (\<lambda>c. encode_spaces (name c)) pinned)]
                    else parts0);
          parts2 = parts1 @ [''home='' @ home]
      in pathname @ ''?'' @ join ''&'' parts2)"

text \<open>\<open>window.location.search\<close> of such a URL: from the first \<open>?\<close> up to the fragment.\<close>

definition location_search :: "string \<Rightarrow> string" where
  "location_search url = takeWhile (\<lambda>c. c \<noteq> CHR ''#'') (dropWhile (\<lambda>c. c \<noteq> CHR ''?'') url)"

text \<open>
  \<open>new URLSearchParams(init)\<close>, the parser of \<open>application/x-www-form-urlencoded\<close>:
  a leading \<open>?\<close> is dropped, the pairs are split at \<open>&\<close>, each at its first \<open>=\<close>, every
  \<open>+\<close> is a space and \<open>%XX\<close> is the byte \<open>XX\<close> (bytes below 128 are the characters
  themselves).
\<close>

definition hex_val :: "char \<Rightarrow> nat option" where
  "hex_val c =
     (let n = (of_char c :: nat)
      in if 48 \<le> n \<and> n \<le> 57 then Some (n - 48)
         else if 65 \<le> n \<and> n \<le> 70 then Some (n - 55)
         else if 97 \<le> n \<and> n \<le> 102 then Some (n - 87)
         else None)"

fun percent_decode :: "string \<Rightarrow> string" where
  "percent_decode [] = []"
| "percent_decode [c] = [c]"
| "percent_decode [c, d] = [c, d]"
| "percent_decode (c # h1 # h2 # rest) =
     (if c = CHR ''%'' \<and> hex_val h1 \<noteq> None \<and> hex_val h2 \<noteq> None
      then char_of (16 * the (hex_val h1) + the (hex_val h2)) # percent_decode rest
      else c # percent_decode (h1 # h2 # rest))"

definition form_decode :: "string \<Rightarrow> string" where
  "form_decode s = percent_decode (map (\<lambda>c. if c = CHR ''+'' then CHR '' '' else c) s)"

definition URLSearchParams :: "string \<Rightarrow> (string \<times> string) list" where
  "URLSearchParams init =
     (let s = (if starts_with init ''?'' then drop 1 init else init)
      in map (\<lambda>piece. (form_decode (takeWhile (\<lambda>c. c \<noteq> CHR ''='') piece),
                        form_decode (drop 1 (dropWhile (\<lambda>c. c \<noteq> CHR ''='') piece))))
             (filter (\<lambda>piece. piece \<noteq> []) (split_on CHR ''&'' s)))"

text \<open>\<open>params.get(key)\<close>: the value of the first pair with that name, or \<open>null\<close>.\<close>

definition params_get :: "(string \<times> string) list \<Rightarrow> string \<Rightarrow> string option" where
  "params_get params key = map_of params key"

text \<open>
  The URL part of the mount effect.  \<open>browserTz\<close> is what
  \<open>Intl.DateTimeFormat().resolvedOptions().timeZone\<close> gives (\<open>None\<close> when it throws).
\<close>

definition mountUrl :: "City list \<Rightarrow> string option \<Rightarrow> string \<Rightarrow> Explorer \<Rightarrow> Explorer" where
  "mountUrl CITIES browserTz location_search_value st =
     (let params = URLSearchParams location_search_value;
          compareParam = params_get params ''compare'';
          homeParam = params_get params ''home'';
          st1 = (case compareParam of
                   None \<Rightarrow> st
                 | Some cp \<Rightarrow>
                     if cp = [] then st
                     else
                       let names = map trim (split_on CHR '','' cp);
                           found = List.map_filter (\<lambda>n. find (\<lambda>c. name c = n) CITIES) names
                       in if length found > 0 then st\<lparr>pinnedCities := take 4 found\<rparr> else st);
          fromBrowser = (case browserTz of
                           None \<Rightarrow> st1
                         | Some b \<Rightarrow> if b \<noteq> [] then st1\<lparr>homeTz := b\<rparr> else st1)
      in case homeParam of
           None \<Rightarrow> fromBrowser
         | Some h \<Rightarrow> if h \<noteq> [] then st1\<lparr>homeTz := h\<rparr> else fromBrowser)"

subsection \<open>Decimal rendering of numbers in template strings\<close>

definition digit_char :: "nat \<Rightarrow> char" where
  "digit_char d = ''0123456789'' ! d"

fun show_nat :: "nat \<Rightarrow> string" where
  "show_nat n = (if n < 10 then [digit_char n] else show_nat (n div 10) @ [digit_char (n mod 10)])"

declare show_nat.simps [simp del]

subsection \<open>\<open>formatDiff\<close> (\<open>lib/utils\<close>)\<close>

definition formatDiff :: "int \<Rightarrow> string" where
  "formatDiff minutes =
     (if minutes = 0 then ''same time''
      else
        let sign = (if minutes > 0 then ''+'' else ''-'');
            abs = nat \<bar>minutes\<bar>;
            h = abs div 60;
            m = abs mod 60
        in if m = 0 then sign @ show_nat h @ ''h''
           else sign @ show_nat h @ ''h '' @ show_nat m @ ''m'')"

text \<open>The \<open>diff\<close> field of \<open>pinnedDerived\<close> and \<open>hoveredDerived\<close>:
  \<open>formatDiff(zoneTime.offset - homeTime.offset)\<close>.\<close>

definition homeDiff :: "int \<Rightarrow> int \<Rightarrow> string" where
  "homeDiff target_offset home_offset = formatDiff (target_offset - home_offset)"

section \<open>Theorems\<close>

lemma show_nat_digit: "n < 10 \<Longrightarrow> show_nat n = [digit_char n]"
  by (simp add: show_nat.simps)

lemma show_nat_two: "10 \<le> n \<Longrightarrow> n < 100 \<Longrightarrow> show_nat n = [digit_char (n div 10), digit_char (n mod 10)]"
  by (subst show_nat.simps) (simp add: show_nat_digit)

text \<open>
  C8: the home difference \<open>target - home\<close> is rendered as \<open>same time\<close> when it is zero;
  otherwise as the sign, the whole hours and \<open>h\<close>, followed by a blank, the minute
  remainder and \<open>m\<close> only when the remainder is not zero.  The three examples of the
  specification evaluate to \<open>+5h 30m\<close>, \<open>same time\<close> and \<open>-3h\<close>.
\<close>

theorem C8_formatDiff:
  "homeDiff t h =
     (if t - h = 0 then ''same time''
      else (if t - h > 0 then ''+'' else ''-'') @ show_nat (nat \<bar>t - h\<bar> div 60) @ ''h'' @
           (if nat \<bar>t - h\<bar> mod 60 = 0 then '''' else '' '' @ show_nat (nat \<bar>t - h\<bar> mod 60) @ ''m''))
   \<and> homeDiff 330 0 = ''+5h 30m''
   \<and> homeDiff 0 0 = ''same time''
   \<and> homeDiff (-480) (-300) = ''-3h''"
proof -
  have general: "homeDiff t h =
     (if t - h = 0 then ''same time''
      else (if t - h > 0 then ''+'' else ''-'') @ show_nat (nat \<bar>t - h\<bar> div 60) @ ''h'' @
           (if nat \<bar>t - h\<bar> mod 60 = 0 then '''' else '' '' @ show_nat (nat \<bar>t - h\<bar> mod 60) @ ''m''))"
    by (simp add: homeDiff_def formatDiff_def Let_def)
  have ex1: "homeDiff 330 0 = ''+5h 30m''"
    by (simp add: homeDiff_def formatDiff_def Let_def show_nat_digit show_nat_two digit_char_def)
  have ex2: "homeDiff 0 0 = ''same time''"
    by (simp add: homeDiff_def formatDiff_def)
  have ex3: "homeDiff (-480) (-300) = ''-3h''"
    by (simp add: homeDiff_def formatDiff_def Let_def show_nat_digit digit_char_def)
  from general ex1 ex2 ex3 show ?thesis by blast
qed

subsection \<open>The offset parser and its grammar\<close>

lemma starts_with_take: "starts_with q l \<Longrightarrow> take (length l) q = l"
  by (induction q l rule: starts_with.induct) auto

lemma not_space_sign: "\<not> is_space CHR ''+''" "\<not> is_space CHR ''-''" "\<not> is_space CHR '':''"
  by (simp_all add: is_space_def)

lemma not_digit_sign: "\<not> is_digit CHR ''+''" "\<not> is_digit CHR ''-''" "\<not> is_digit CHR '':''"
  by (simp_all add: is_digit_def)

lemma digit_not_space: "is_digit c \<Longrightarrow> \<not> is_space c"
  by (auto simp: is_digit_def is_space_def Let_def)

lemma digit_not_sign: "is_digit c \<Longrightarrow> c \<noteq> CHR ''+'' \<and> c \<noteq> CHR ''-'' \<and> c \<noteq> CHR '':''"
  using not_digit_sign by auto

lemma parseInt_digits_value:
  "length s = 1 \<or> length s = 2 \<Longrightarrow> parseInt s = digits_value s"
  by (cases s; cases "tl s"; auto simp: parseInt_def digits_value_def lessThan_Suc numeral_2_eq_2)

lemma len2: "length m = 2 \<Longrightarrow> \<exists>a b. m = [a, b]"
  by (auto simp: numeral_2_eq_2 length_Suc_conv)

lemma len1: "length m = Suc 0 \<Longrightarrow> \<exists>a. m = [a]"
  by (auto simp: length_Suc_conv)

lemma dropWhile_gap: "list_all P g \<Longrightarrow> \<not> P c \<Longrightarrow> dropWhile P (g @ c # r) = c # r"
  by (induction g) auto

lemma dropWhile_gap2:
  "list_all P g1 \<Longrightarrow> list_all P g2 \<Longrightarrow> \<not> P c \<Longrightarrow> dropWhile P (g1 @ g2 @ c # r) = c # r"
  by (induction g1) (auto simp: dropWhile_gap)

lemma offset_regex_parts:
  assumes g1: "list_all is_space g1" and g2: "list_all is_space g2"
    and sg: "sg = '''' \<or> sg = ''+'' \<or> sg = ''-''"
    and hh: "(\<exists>h1. hh = [h1] \<and> is_digit h1) \<or> (\<exists>h1 h2. hh = [h1, h2] \<and> is_digit h1 \<and> is_digit h2)"
    and mm: "mm = None \<or> (\<exists>a b. mm = Some [a, b] \<and> is_digit a \<and> is_digit b)"
    and l: "l = ''utc'' \<or> l = ''gmt''"
  shows "offset_regex (l @ g1 @ sg @ g2 @ hh @ (case mm of None \<Rightarrow> '''' | Some m \<Rightarrow> '':'' @ m)) =
           Some (if sg = '''' then None else Some sg, hh, mm)"
proof -
  let ?mt = "case mm of None \<Rightarrow> '''' | Some m \<Rightarrow> '':'' @ m"
  let ?q = "l @ g1 @ sg @ g2 @ hh @ ?mt"
  from hh obtain h1 hs where hhd: "hh = h1 # hs" "is_digit h1" by auto
  have h1: "\<not> is_space h1" "h1 \<noteq> CHR ''+''" "h1 \<noteq> CHR ''-''"
    using hhd(2) digit_not_space digit_not_sign by auto
  have lit: "starts_with ?q ''utc'' \<or> starts_with ?q ''gmt''"
    using l by auto
  have d3: "drop 3 ?q = g1 @ sg @ g2 @ hh @ ?mt"
    using l by auto
  define r1 where "r1 = dropWhile is_space (g1 @ sg @ g2 @ hh @ ?mt)"
  define m1 where "m1 = (case r1 of [] \<Rightarrow> None
                  | c # t \<Rightarrow> if c = CHR ''+'' \<or> c = CHR ''-'' then Some [c] else None)"
  define r3 where "r3 = dropWhile is_space (case m1 of None \<Rightarrow> r1 | Some s \<Rightarrow> drop 1 r1)"
  have r1: "r1 = sg @ hh @ ?mt \<or> (sg \<noteq> [] \<and> r1 = sg @ g2 @ hh @ ?mt)"
    using sg g1 g2 h1 unfolding r1_def hhd(1)
    by (auto simp: dropWhile_gap dropWhile_gap2 not_space_sign)
  have m1: "m1 = (if sg = '''' then None else Some sg)"
    using sg r1 h1 unfolding m1_def hhd(1) by auto
  have r3: "r3 = hh @ ?mt"
    using sg r1 h1 g2 unfolding r3_def m1 hhd(1) by (auto simp: dropWhile_gap)
  have m2: "take 2 (takeWhile is_digit r3) = hh"
    using hh mm unfolding r3 by (auto simp: not_digit_sign)
  have r4: "drop (length hh) r3 = ?mt"
    unfolding r3 by simp
  have hne: "hh \<noteq> []" using hhd by simp
  have "offset_regex ?q =
          (case ?mt of [] \<Rightarrow> Some (m1, hh, None)
           | [c, a, b] \<Rightarrow> if c = CHR '':'' \<and> is_digit a \<and> is_digit b then Some (m1, hh, Some [a, b]) else None
           | _ \<Rightarrow> None)"
    using lit hne unfolding offset_regex_def d3 Let_def
    by (simp only: r1_def [symmetric] m1_def [symmetric] r3_def [symmetric] m2 r4) simp
  also have "\<dots> = Some (m1, hh, mm)"
    using mm by auto
  finally show ?thesis by (simp add: m1)
qed

lemma offset_regex_render:
  assumes "is_literal l" "wf_tail t"
  shows "offset_regex (l @ render_tail t) =
           Some (if sign_txt t = '''' then None else Some (sign_txt t), hours_txt t, minutes_txt t)"
proof -
  from assms(2) have g1: "list_all is_space (gap1 t)" and g2: "list_all is_space (gap2 t)"
    and sg: "sign_txt t = '''' \<or> sign_txt t = ''+'' \<or> sign_txt t = ''-''"
    and hh: "length (hours_txt t) = Suc 0 \<or> length (hours_txt t) = 2" "list_all is_digit (hours_txt t)"
    by (auto simp: wf_tail_def)
  from assms(2) have mm: "minutes_txt t = None \<or> (\<exists>a b. minutes_txt t = Some [a, b] \<and> is_digit a \<and> is_digit b)"
    by (cases "minutes_txt t") (auto simp: wf_tail_def dest!: len2)
  from hh have hhd: "(\<exists>h1. hours_txt t = [h1] \<and> is_digit h1) \<or> (\<exists>h1 h2. hours_txt t = [h1, h2] \<and> is_digit h1 \<and> is_digit h2)"
    by (auto dest!: len1 len2)
  from assms(1) have l: "l = ''utc'' \<or> l = ''gmt''" by (simp add: is_literal_def)
  show ?thesis
    unfolding render_tail_def by (rule offset_regex_parts [OF g1 g2 sg hhd mm l])
qed

lemma parseOffsetQuery_render:
  assumes "is_literal l" "wf_tail t"
  shows "parseOffsetQuery (l @ render_tail t) = Some (signed_minutes t)"
proof -
  from assms(2) have hh: "length (hours_txt t) = 1 \<or> length (hours_txt t) = 2"
    by (auto simp: wf_tail_def)
  have mm: "minutes_txt t = Some m \<Longrightarrow> length m = 1 \<or> length m = 2" for m
    using assms(2) by (auto simp: wf_tail_def)
  from assms(2) have sg: "sign_txt t = '''' \<or> sign_txt t = ''+'' \<or> sign_txt t = ''-''"
    by (auto simp: wf_tail_def)
  show ?thesis
    using sg mm
    by (auto simp: parseOffsetQuery_def offset_regex_render [OF assms] signed_minutes_def
        parseInt_digits_value [OF hh] parseInt_digits_value split: option.splits)
qed

lemma take_takeWhile_prefix:
  "take k (takeWhile P xs) @ drop (length (take k (takeWhile P xs))) xs = xs"
proof -
  have "take k (takeWhile P xs) = take k (take (length (takeWhile P xs)) xs)"
    by (simp add: takeWhile_eq_take [symmetric])
  also have "\<dots> = take (min k (length (takeWhile P xs))) xs"
    by (simp add: min.commute)
  finally have eq: "take k (takeWhile P xs) = take (min k (length (takeWhile P xs))) xs" .
  have "length (takeWhile P xs) \<le> length xs" by (rule length_takeWhile_le)
  then have "length (take k (takeWhile P xs)) = min k (length (takeWhile P xs))"
    by simp
  with eq show ?thesis by (metis append_take_drop_id)
qed

lemma offset_regex_Some_grammar:
  assumes "offset_regex q = Some (m1, m2, m3)"
  shows "\<exists>l t. is_literal l \<and> wf_tail t \<and> q = l @ render_tail t
           \<and> m1 = (if sign_txt t = '''' then None else Some (sign_txt t))
           \<and> m2 = hours_txt t \<and> m3 = minutes_txt t"
proof -
  define r1 where "r1 = dropWhile is_space (drop 3 q)"
  define m1' where "m1' = (case r1 of [] \<Rightarrow> None
                  | c # t \<Rightarrow> if c = CHR ''+'' \<or> c = CHR ''-'' then Some [c] else None)"
  define r2 where "r2 = (case m1' of None \<Rightarrow> r1 | Some s \<Rightarrow> drop 1 r1)"
  define r3 where "r3 = dropWhile is_space r2"
  define m2' where "m2' = take 2 (takeWhile is_digit r3)"
  define r4 where "r4 = drop (length m2') r3"
  define sg where "sg = (case m1' of None \<Rightarrow> '''' | Some s \<Rightarrow> s)"
  have lit: "starts_with q ''utc'' \<or> starts_with q ''gmt''"
    using assms by (auto simp: offset_regex_def split: if_splits)
  then have l: "is_literal (take 3 q)"
    using starts_with_take [of q "''utc''"] starts_with_take [of q "''gmt''"]
    by (auto simp: is_literal_def numeral_3_eq_3)
  have "offset_regex q =
         (if m2' = [] then None
           else (case r4 of
                   [] \<Rightarrow> Some (m1', m2', None)
                 | [c, a, b] \<Rightarrow>
                     if c = CHR '':'' \<and> is_digit a \<and> is_digit b then Some (m1', m2', Some [a, b])
                     else None
                 | _ \<Rightarrow> None))"
    using lit unfolding offset_regex_def Let_def r4_def m2'_def r3_def r2_def m1'_def r1_def
    by simp
  with assms have eq: "(if m2' = [] then None
           else (case r4 of
                   [] \<Rightarrow> Some (m1', m2', None)
                 | [c, a, b] \<Rightarrow>
                     if c = CHR '':'' \<and> is_digit a \<and> is_digit b then Some (m1', m2', Some [a, b])
                     else None
                 | _ \<Rightarrow> None)) = Some (m1, m2, m3)" by simp
  then have m1: "m1 = m1'" and m2: "m2 = m2'" and m2ne: "m2' \<noteq> []"
    by (auto split: if_splits list.splits)
  from eq have tail: "(r4 = [] \<and> m3 = None) \<or> (\<exists>a b. r4 = [CHR '':'', a, b] \<and> is_digit a \<and> is_digit b \<and> m3 = Some [a, b])"
    by (auto split: if_splits list.splits)
  have q3: "q = take 3 q @ takeWhile is_space (drop 3 q) @ r1"
    by (simp add: r1_def)
  have r1d: "r1 = sg @ r2" and sgv: "sg = '''' \<or> sg = ''+'' \<or> sg = ''-''"
    and m1s: "m1' = (if sg = '''' then None else Some sg)"
    unfolding sg_def r2_def m1'_def by (auto split: list.splits)
  have r2d: "r2 = takeWhile is_space r2 @ r3"
    by (simp add: r3_def)
  have r3d: "r3 = m2' @ r4"
    unfolding r4_def m2'_def by (rule take_takeWhile_prefix [symmetric])
  have m2digits: "list_all is_digit m2'"
    unfolding m2'_def list_all_iff using set_takeWhileD in_set_takeD by metis
  have m2len: "length m2' = 1 \<or> length m2' = 2"
    using m2ne unfolding m2'_def by (cases "takeWhile is_digit r3"; cases "tl (takeWhile is_digit r3)") auto
  let ?t = "\<lparr>gap1 = takeWhile is_space (drop 3 q), sign_txt = sg, gap2 = takeWhile is_space r2,
             hours_txt = m2', minutes_txt = m3\<rparr>"
  have sp: "list_all is_space (takeWhile is_space xs)" for xs
    unfolding list_all_iff using set_takeWhileD by metis
  have wf: "wf_tail ?t"
    using sgv m2digits m2len tail sp by (auto simp: wf_tail_def)
  have "q = take 3 q @ render_tail ?t"
    using tail by (subst q3, subst r1d, subst r2d, subst r3d) (auto simp: render_tail_def)
  with l wf m1s m1 m2 show ?thesis
    by (intro exI [of _ "take 3 q"] exI [of _ ?t]) simp
qed

lemma parseOffsetQuery_Some_grammar:
  assumes "parseOffsetQuery q = Some n"
  shows "q = ''utc'' \<or> q = ''gmt'' \<or> (\<exists>l t. is_literal l \<and> wf_tail t \<and> q = l @ render_tail t)"
proof (cases "offset_regex q")
  case None
  with assms show ?thesis by (auto simp: parseOffsetQuery_def split: if_splits)
next
  case (Some m)
  then obtain m1 m2 m3 where "offset_regex q = Some (m1, m2, m3)" by (cases m) auto
  from offset_regex_Some_grammar [OF this] show ?thesis by blast
qed

lemma parseOffsetQuery_needs_literal:
  assumes "parseOffsetQuery q = Some n"
  shows "starts_with q ''utc'' \<or> starts_with q ''gmt''"
  using assms by (auto simp: parseOffsetQuery_def offset_regex_def split: if_splits option.splits)

lemma starts_with_hd: "starts_with s (c # l) \<Longrightarrow> s \<noteq> [] \<and> hd s = c"
  by (cases s) auto

lemma render_tail_first:
  assumes "wf_tail t"
  shows "render_tail t \<noteq> [] \<and>
         (is_space (hd (render_tail t)) \<or> hd (render_tail t) = CHR ''+'' \<or>
          hd (render_tail t) = CHR ''-'' \<or> is_digit (hd (render_tail t)))"
proof -
  from assms have g1: "list_all is_space (gap1 t)" and g2: "list_all is_space (gap2 t)"
    and sg: "sign_txt t = '''' \<or> sign_txt t = ''+'' \<or> sign_txt t = ''-''"
    and hh: "hours_txt t \<noteq> []" "list_all is_digit (hours_txt t)"
    by (auto simp: wf_tail_def)
  show ?thesis
    using g1 g2 sg hh
    by (cases "gap1 t"; cases "gap2 t"; cases "hours_txt t") (auto simp: render_tail_def)
qed

lemma render_tail_no_literal:
  assumes "wf_tail t"
  shows "\<not> starts_with (render_tail t) ''utc'' \<and> \<not> starts_with (render_tail t) ''gmt''"
  using render_tail_first [OF assms] starts_with_hd [of "render_tail t" "CHR ''u''" "''tc''"]
    starts_with_hd [of "render_tail t" "CHR ''g''" "''mt''"]
  by (auto simp: is_space_def is_digit_def)

lemma parseOffsetQuery_bare:
  assumes "wf_tail t"
  shows "parseOffsetQuery (render_tail t) = None"
proof (cases "parseOffsetQuery (render_tail t)")
  case None then show ?thesis .
next
  case (Some n)
  from parseOffsetQuery_needs_literal [OF this] render_tail_no_literal [OF assms]
  show ?thesis by simp
qed

lemma parseOffsetQuery_examples:
  "parseOffsetQuery ''utc'' = Some 0" "parseOffsetQuery ''gmt'' = Some 0"
  "parseOffsetQuery ''utc+1'' = Some 60" "parseOffsetQuery ''gmt-5:30'' = Some (- 330)"
  "parseOffsetQuery ''utc+99'' = Some 5940" "parseOffsetQuery ''banana'' = None"
  "parseOffsetQuery ''+1'' = None" "parseOffsetQuery ''-5'' = None"
  "parseOffsetQuery ''5:30'' = None"
  by (simp_all add: parseOffsetQuery_def offset_regex_def is_space_def is_digit_def parseInt_def Let_def)

lemma lower_trim_example: "toLowerCase (trim '' UTC+1 '') = ''utc+1''"
  by (simp add: toLowerCase_def trim_def is_space_def lower_char_def Let_def char_of_eq_iff)

lemma spec_offset_text_wf: "spec_offset_text l t \<Longrightarrow> wf_tail t \<and> (l = '''' \<or> is_literal l)"
  by (auto simp: spec_offset_text_def wf_tail_def is_literal_def)

lemma parseOffsetQuery_spec:
  assumes "spec_offset_text l t"
  shows "parseOffsetQuery (l @ render_tail t) = (if l = '''' then None else Some (signed_minutes t))"
proof (cases "l = ''''")
  case True
  with spec_offset_text_wf [OF assms] parseOffsetQuery_bare [of t] show ?thesis by simp
next
  case False
  with spec_offset_text_wf [OF assms] parseOffsetQuery_render [of l t] show ?thesis by simp
qed

lemma utc_plus_space_not_spec:
  "\<not> (\<exists>l t. spec_offset_text l t \<and> ''utc+ 5'' = l @ render_tail t)"
proof
  assume "\<exists>l t. spec_offset_text l t \<and> ''utc+ 5'' = l @ render_tail t"
  then obtain l t where s: "spec_offset_text l t" and e: "''utc+ 5'' = l @ render_tail t" by blast
  from s have wf: "wf_tail t" and g2: "gap2 t = ''''" and g1: "list_all is_space (gap1 t)"
    and sg: "sign_txt t = '''' \<or> sign_txt t = ''+'' \<or> sign_txt t = ''-''"
    and hd: "list_all is_digit (hours_txt t)" and hn: "hours_txt t \<noteq> []"
    and l: "l = '''' \<or> l = ''utc'' \<or> l = ''gmt''"
    by (auto simp: spec_offset_text_def wf_tail_def)
  have "l \<noteq> ''''"
  proof
    assume "l = ''''"
    with e have "render_tail t = ''utc+ 5''" by simp
    then have "starts_with (render_tail t) ''utc''" by simp
    with render_tail_no_literal [OF wf] show False by simp
  qed
  with l e have r: "render_tail t = ''+ 5''"
    by auto
  have sp: "\<not> is_space CHR ''+''" "\<not> is_digit CHR ''+''" "\<not> is_digit CHR '' ''"
    by (simp_all add: is_space_def is_digit_def)
  from r g1 sp have "gap1 t = ''''"
    by (cases "gap1 t") (auto simp: render_tail_def)
  with r g2 have body: "sign_txt t @ hours_txt t @ (case minutes_txt t of None \<Rightarrow> '''' | Some m \<Rightarrow> '':'' @ m) = ''+ 5''"
    by (simp add: render_tail_def)
  from sg body hd hn sp show False
    by (cases "hours_txt t") auto
qed

text \<open>
  C3, as stated, fails on the grammar of the specification.  The text \<open>+1\<close> matches
  that grammar (no literal, sign, one hour digit) and has the value 60, and the parser
  returns the absent result.  The text \<open>utc+ 5\<close> does not match it (white space after
  the sign) and is not a bare literal, and the parser returns 300.
\<close>

theorem C3_counterexample:
  "spec_offset_text '''' \<lparr>gap1 = '''', sign_txt = ''+'', gap2 = '''', hours_txt = ''1'', minutes_txt = None\<rparr> \<and>
   '''' @ render_tail \<lparr>gap1 = '''', sign_txt = ''+'', gap2 = '''', hours_txt = ''1'', minutes_txt = None\<rparr> = ''+1'' \<and>
   signed_minutes \<lparr>gap1 = '''', sign_txt = ''+'', gap2 = '''', hours_txt = ''1'', minutes_txt = None\<rparr> = 60 \<and>
   parseOffsetQuery ''+1'' = None \<and>
   ''utc+ 5'' \<noteq> ''utc'' \<and> ''utc+ 5'' \<noteq> ''gmt'' \<and>
   \<not> spec_offset_text ''utc'' \<lparr>gap1 = '''', sign_txt = ''+'', gap2 = '' '', hours_txt = ''5'', minutes_txt = None\<rparr> \<and>
   ''utc'' @ render_tail \<lparr>gap1 = '''', sign_txt = ''+'', gap2 = '' '', hours_txt = ''5'', minutes_txt = None\<rparr> = ''utc+ 5'' \<and>
   parseOffsetQuery ''utc+ 5'' = Some 300"
proof -
  have p: "parseOffsetQuery ''utc+ 5'' = Some 300"
    by (simp add: parseOffsetQuery_def offset_regex_def is_space_def is_digit_def parseInt_def Let_def)
  show ?thesis
    by (simp add: p parseOffsetQuery_examples spec_offset_text_def render_tail_def signed_minutes_def
        digits_value_def is_digit_def)
qed

text \<open>
  C3, amended: for every input that matches the offset grammar of the specification the
  parser returns \<open>sign * (hours * 60 + minutes)\<close>, with no range check, when the literal
  \<open>utc\<close> or \<open>gmt\<close> is present, and the absent result when it is missing; the parser
  gives the same value when white space stands between the sign and the hour digits;
  the bare literals give 0; a text that is neither a bare literal nor a literal followed
  by white space, an optional sign, white space, one or two hour digits and an optional
  \<open>:MM\<close> gives the absent result.  The examples of the specification: \<open>utc+1\<close> gives
  60, \<open>gmt-5:30\<close> gives -330, \<open>utc\<close> gives 0, \<open>utc+99\<close> gives 5940 and \<open>banana\<close> is
  absent.
\<close>

theorem C3_parseOffsetQuery:
  "(spec_offset_text l t \<longrightarrow>
      parseOffsetQuery (l @ render_tail t) = (if l = '''' then None else Some (signed_minutes t)))
   \<and> (is_literal l \<longrightarrow> wf_tail t \<longrightarrow> parseOffsetQuery (l @ render_tail t) = Some (signed_minutes t))
   \<and> parseOffsetQuery ''utc'' = Some 0 \<and> parseOffsetQuery ''gmt'' = Some 0
   \<and> (q \<noteq> ''utc'' \<and> q \<noteq> ''gmt'' \<and>
        (\<forall>l' t'. is_literal l' \<and> wf_tail t' \<longrightarrow> q \<noteq> l' @ render_tail t')
        \<longrightarrow> parseOffsetQuery q = None)
   \<and> parseOffsetQuery (toLowerCase (trim '' UTC+1 '')) = Some 60
   \<and> parseOffsetQuery ''utc+1'' = Some 60
   \<and> parseOffsetQuery ''gmt-5:30'' = Some (- 330)
   \<and> parseOffsetQuery ''utc+99'' = Some 5940
   \<and> parseOffsetQuery ''banana'' = None"
proof -
  have spec: "spec_offset_text l t \<longrightarrow>
      parseOffsetQuery (l @ render_tail t) = (if l = '''' then None else Some (signed_minutes t))"
    using parseOffsetQuery_spec by blast
  have fwd: "is_literal l \<longrightarrow> wf_tail t \<longrightarrow> parseOffsetQuery (l @ render_tail t) = Some (signed_minutes t)"
    using parseOffsetQuery_render by blast
  have bwd: "q \<noteq> ''utc'' \<and> q \<noteq> ''gmt'' \<and>
        (\<forall>l' t'. is_literal l' \<and> wf_tail t' \<longrightarrow> q \<noteq> l' @ render_tail t')
        \<longrightarrow> parseOffsetQuery q = None"
    using parseOffsetQuery_Some_grammar [of q] by (cases "parseOffsetQuery q") blast+
  have up: "parseOffsetQuery (toLowerCase (trim '' UTC+1 '')) = Some 60"
    by (simp only: lower_trim_example parseOffsetQuery_examples)
  from spec fwd bwd up parseOffsetQuery_examples(1-6) show ?thesis
    by blast
qed

theorem C3_witness:
  "is_literal ''gmt'' \<and>
   wf_tail \<lparr>gap1 = '' '', sign_txt = ''-'', gap2 = '' '', hours_txt = ''12'', minutes_txt = Some ''45''\<rparr> \<and>
   parseOffsetQuery ''gmt - 12:45'' = Some (- 765) \<and>
   spec_offset_text ''utc'' \<lparr>gap1 = '' '', sign_txt = ''-'', gap2 = '''', hours_txt = ''12'', minutes_txt = Some ''45''\<rparr> \<and>
   parseOffsetQuery ''utc -12:45'' = Some (- 765) \<and>
   spec_offset_text '''' \<lparr>gap1 = '''', sign_txt = ''-'', gap2 = '''', hours_txt = ''12'', minutes_txt = Some ''45''\<rparr> \<and>
   parseOffsetQuery ''-12:45'' = None \<and>
   ''utc 1x'' \<noteq> ''utc'' \<and> ''utc 1x'' \<noteq> ''gmt'' \<and> parseOffsetQuery ''utc 1x'' = None"
proof -
  let ?t = "\<lparr>gap1 = '' '', sign_txt = ''-'', gap2 = '' '', hours_txt = ''12'', minutes_txt = Some ''45''\<rparr>"
  let ?s = "\<lparr>gap1 = '' '', sign_txt = ''-'', gap2 = '''', hours_txt = ''12'', minutes_txt = Some ''45''\<rparr>"
  let ?b = "\<lparr>gap1 = '''', sign_txt = ''-'', gap2 = '''', hours_txt = ''12'', minutes_txt = Some ''45''\<rparr>"
  have l: "is_literal ''gmt''" by (simp add: is_literal_def)
  have wf: "wf_tail ?t" by (simp add: wf_tail_def is_space_def is_digit_def)
  have r: "''gmt'' @ render_tail ?t = ''gmt - 12:45''" by (simp add: render_tail_def)
  have v: "signed_minutes ?t = - 765"
    by (simp add: signed_minutes_def digits_value_def lessThan_Suc numeral_2_eq_2)
  have ss: "spec_offset_text ''utc'' ?s" by (simp add: spec_offset_text_def is_space_def is_digit_def)
  have rs: "''utc'' @ render_tail ?s = ''utc -12:45''" by (simp add: render_tail_def)
  have vs: "signed_minutes ?s = - 765"
    by (simp add: signed_minutes_def digits_value_def lessThan_Suc numeral_2_eq_2)
  have sb: "spec_offset_text '''' ?b" by (simp add: spec_offset_text_def is_digit_def)
  have rb: "'''' @ render_tail ?b = ''-12:45''" by (simp add: render_tail_def)
  have no: "\<forall>l' t'. is_literal l' \<and> wf_tail t' \<longrightarrow> ''utc 1x'' \<noteq> l' @ render_tail t'"
  proof (intro allI impI notI)
    fix l' t' assume a: "is_literal l' \<and> wf_tail t'" and e: "''utc 1x'' = l' @ render_tail t'"
    from a have "parseOffsetQuery (l' @ render_tail t') = Some (signed_minutes t')"
      using parseOffsetQuery_render by blast
    then have "parseOffsetQuery ''utc 1x'' = Some (signed_minutes t')"
      by (simp only: e [symmetric])
    moreover have "parseOffsetQuery ''utc 1x'' = None"
      by (simp add: parseOffsetQuery_def offset_regex_def is_space_def is_digit_def Let_def)
    ultimately show False by simp
  qed
  have i1: "parseOffsetQuery ''gmt - 12:45'' = Some (- 765) \<and> parseOffsetQuery ''utc 1x'' = None"
    using C3_parseOffsetQuery [of "''gmt''" ?t "''utc 1x''"] l wf no
    by (simp only: r v) simp
  have i2: "parseOffsetQuery ''utc -12:45'' = Some (- 765)"
    using C3_parseOffsetQuery [of "''utc''" ?s "''utc 1x''"] ss
    by (simp only: rs vs) simp
  have i3: "parseOffsetQuery ''-12:45'' = None"
    using C3_parseOffsetQuery [of "''''" ?b "''utc 1x''"] sb
    by (simp only: rb) simp
  from i1 i2 i3 l wf ss sb show ?thesis by simp
qed

text \<open>
  C2, as stated, fails: the parser rejects every input without the literal; \<open>+1\<close>,
  \<open>-5\<close> and \<open>5:30\<close> all give the absent result.
\<close>

theorem C2_counterexample:
  "wf_tail \<lparr>gap1 = '''', sign_txt = ''+'', gap2 = '''', hours_txt = ''1'', minutes_txt = None\<rparr> \<and>
   render_tail \<lparr>gap1 = '''', sign_txt = ''+'', gap2 = '''', hours_txt = ''1'', minutes_txt = None\<rparr> = ''+1'' \<and>
   signed_minutes \<lparr>gap1 = '''', sign_txt = ''+'', gap2 = '''', hours_txt = ''1'', minutes_txt = None\<rparr> = 60 \<and>
   parseOffsetQuery ''+1'' = None \<and> parseOffsetQuery ''-5'' = None \<and> parseOffsetQuery ''5:30'' = None"
  by (simp add: parseOffsetQuery_examples wf_tail_def render_tail_def signed_minutes_def
      digits_value_def is_digit_def)

text \<open>
  C2, amended: the literal \<open>utc\<close> or \<open>gmt\<close> is mandatory.  An input that matches the
  grammar with the literal omitted (a bare \<open>+1\<close>, \<open>-5\<close> or \<open>5:30\<close>) gives the absent
  result; the same text behind \<open>utc\<close> or \<open>gmt\<close> is accepted and gives the signed minutes;
  every input the parser accepts starts with \<open>utc\<close> or \<open>gmt\<close>.
\<close>

theorem C2_literal_mandatory:
  "(wf_tail t \<longrightarrow>
      parseOffsetQuery (render_tail t) = None \<and>
      parseOffsetQuery (''utc'' @ render_tail t) = Some (signed_minutes t) \<and>
      parseOffsetQuery (''gmt'' @ render_tail t) = Some (signed_minutes t))
   \<and> (parseOffsetQuery q = Some n \<longrightarrow> starts_with q ''utc'' \<or> starts_with q ''gmt'')"
  using parseOffsetQuery_bare [of t] parseOffsetQuery_render [of "''utc''" t]
    parseOffsetQuery_render [of "''gmt''" t] parseOffsetQuery_needs_literal [of q n]
  by (simp add: is_literal_def)

theorem C2_witness:
  "wf_tail \<lparr>gap1 = '''', sign_txt = ''-'', gap2 = '''', hours_txt = ''5'', minutes_txt = Some ''30''\<rparr> \<and>
   parseOffsetQuery ''-5:30'' = None \<and>
   parseOffsetQuery ''utc-5:30'' = Some (- 330) \<and>
   parseOffsetQuery ''gmt-5:30'' = Some (- 330) \<and>
   starts_with ''gmt-5:30'' ''gmt''"
proof -
  let ?t = "\<lparr>gap1 = '''', sign_txt = ''-'', gap2 = '''', hours_txt = ''5'', minutes_txt = Some ''30''\<rparr>"
  have wf: "wf_tail ?t" by (simp add: wf_tail_def is_digit_def)
  have r: "render_tail ?t = ''-5:30''" by (simp add: render_tail_def)
  have v: "signed_minutes ?t = - 330"
    by (simp add: signed_minutes_def digits_value_def lessThan_Suc numeral_2_eq_2)
  show ?thesis
    using C2_literal_mandatory [of ?t "''gmt-5:30''" "- 330"] wf r v by simp
qed

subsection \<open>Search loops and grouping\<close>


lemma name_loop_filter:
  "name_loop q cs (cm, seen) =
     (cm @ filter (\<lambda>c. includes_str (toLowerCase (name c)) q) cs,
      seen \<union> name ` set (filter (\<lambda>c. includes_str (toLowerCase (name c)) q) cs))"
  by (induction cs arbitrary: cm seen) auto

lemma country_loop_filter:
  "country_loop q seen cs cm =
     cm @ filter (\<lambda>c. name c \<notin> seen \<and> includes_str (toLowerCase (country c)) q) cs"
  by (induction cs arbitrary: cm) auto

lemma map_of_keys: "(map_of m k = None) = (k \<notin> fst ` set m)"
  by (simp add: map_of_eq_None_iff)

lemma fold_group_step:
  "fold group_step cs m = grow cs m @ by_country (fresh m cs)"
proof (induction cs arbitrary: m)
  case Nil
  then show ?case by (simp add: grow_def fresh_def)
next
  case (Cons c cs)
  show ?case
  proof (cases "map_of m (country c)")
    case None
    then have notin: "country c \<notin> fst ` set m" by (simp add: map_of_keys)
    let ?m' = "m @ [(country c, [c])]"
    have step: "group_step c m = ?m'"
      by (simp add: group_step_def None)
    have f0: "fresh m (c # cs) = c # fresh m cs"
      using notin by (simp add: fresh_def)
    have f1: "filter (\<lambda>d. country d = country c) (fresh m cs) = filter (\<lambda>d. country d = country c) cs"
      unfolding fresh_def filter_filter using notin by (intro filter_cong refl) force
    have f2: "filter (\<lambda>d. country d \<noteq> country c) (fresh m cs) = fresh ?m' cs"
      unfolding fresh_def filter_filter by (intro filter_cong refl) force
    have m1: "grow (c # cs) m = grow cs m"
      unfolding grow_def using notin by (intro map_cong refl) (force simp: image_iff)
    have m2: "grow cs ?m' = grow cs m @ [(country c, c # filter (\<lambda>d. country d = country c) cs)]"
      by (simp add: grow_def)
    have "fold group_step (c # cs) m = fold group_step cs ?m'"
      by (simp add: step)
    also have "\<dots> = grow cs ?m' @ by_country (fresh ?m' cs)"
      by (rule Cons.IH)
    also have "\<dots> = grow cs m @ by_country (c # fresh m cs)"
      by (simp only: m2 by_country.simps f1 f2 append_assoc append_Cons append_Nil)
    finally show ?thesis by (simp only: m1 f0)
  next
    case (Some existing)
    then have isin: "country c \<in> fst ` set m"
      using map_of_keys [of m "country c"] by simp
    let ?m' = "map (\<lambda>(k, v). if k = country c then (k, v @ [c]) else (k, v)) m"
    have step: "group_step c m = ?m'"
      by (simp add: group_step_def Some)
    have keys: "fst ` set ?m' = fst ` set m"
      by (force simp: image_iff split: if_splits)
    have f0: "fresh m (c # cs) = fresh m cs"
      using isin by (simp add: fresh_def)
    have f1: "fresh ?m' cs = fresh m cs"
      unfolding fresh_def keys ..
    have m1: "grow cs ?m' = grow (c # cs) m"
      unfolding grow_def map_map by (intro map_cong refl) auto
    have "fold group_step (c # cs) m = fold group_step cs ?m'"
      by (simp add: step)
    also have "\<dots> = grow cs ?m' @ by_country (fresh ?m' cs)"
      by (rule Cons.IH)
    finally show ?thesis by (simp only: m1 f0 f1)
  qed
qed

lemma groupByCountry_by_country: "groupByCountry cities = by_country cities"
  by (simp add: groupByCountry_def fold_group_step grow_def fresh_def)

lemma flat_by_country_Cons:
  "flat (by_country (c # cs)) =
     c # filter (\<lambda>d. country d = country c) cs @ flat (by_country (filter (\<lambda>d. country d \<noteq> country c) cs))"
  by simp

lemma mset_flat_by_country: "mset (flat (by_country xs)) = mset xs"
proof (induction xs rule: by_country.induct)
  case 1
  then show ?case by simp
next
  case (2 c cs)
  have "mset (filter (\<lambda>d. country d = country c) cs) + mset (filter (\<lambda>d. country d \<noteq> country c) cs) = mset cs"
    by (induction cs) auto
  with 2 show ?case by (simp add: ac_simps)
qed

lemma set_flat_by_country: "set (flat (by_country xs)) = set xs"
  using mset_flat_by_country [of xs] by (metis set_mset_mset)

lemma adjacent_suffix: "countries_adjacent (as @ bs) \<Longrightarrow> countries_adjacent bs"
  by (induction as) auto

lemma adjacent_run:
  "\<forall>a \<in> set as. country a = k \<Longrightarrow> \<forall>b \<in> set bs. country b \<noteq> k \<Longrightarrow> countries_adjacent bs
   \<Longrightarrow> countries_adjacent (as @ bs)"
proof (induction as)
  case Nil
  then show ?case by simp
next
  case (Cons a as)
  then have "dropWhile (\<lambda>d. country d = country a) (as @ bs) = dropWhile (\<lambda>d. country d = country a) bs"
    by (simp add: dropWhile_append2)
  also have "\<dots> = bs"
    using Cons.prems by (cases bs) auto
  finally show ?case using Cons by (simp add: list_all_iff)
qed

lemma run_split:
  assumes "\<forall>a \<in> set as. country a = k" "\<forall>b \<in> set bs. country b \<noteq> k"
  shows "filter (\<lambda>d. country d = k) (as @ bs) = as"
    and "filter (\<lambda>d. country d \<noteq> k) (as @ bs) = bs"
    and "dropWhile (\<lambda>d. country d = k) (as @ bs) = bs"
proof -
  show "filter (\<lambda>d. country d = k) (as @ bs) = as"
    using assms by (simp add: filter_id_conv filter_empty_conv)
  show "filter (\<lambda>d. country d \<noteq> k) (as @ bs) = bs"
    using assms by (simp add: filter_id_conv filter_empty_conv)
  have "dropWhile (\<lambda>d. country d = k) (as @ bs) = dropWhile (\<lambda>d. country d = k) bs"
    using assms(1) by (simp add: dropWhile_append2)
  also have "\<dots> = bs" using assms(2) by (cases bs) auto
  finally show "dropWhile (\<lambda>d. country d = k) (as @ bs) = bs" .
qed

lemma flat_by_country_id_iff:
  "flat (by_country xs) = xs \<longleftrightarrow> countries_adjacent xs"
proof (induction xs rule: by_country.induct)
  case 1
  then show ?case by simp
next
  case (2 c cs)
  let ?S = "filter (\<lambda>d. country d = country c) cs"
  let ?D = "filter (\<lambda>d. country d \<noteq> country c) cs"
  let ?F = "flat (by_country ?D)"
  have S: "\<forall>a \<in> set ?S. country a = country c" by simp
  have F: "\<forall>b \<in> set ?F. country b \<noteq> country c" unfolding set_flat_by_country by simp
  have D: "\<forall>b \<in> set ?D. country b \<noteq> country c" by simp
  have unfold: "flat (by_country (c # cs)) = c # ?S @ ?F" by simp
  show ?case
  proof
    assume "flat (by_country (c # cs)) = c # cs"
    with unfold have cs: "cs = ?S @ ?F" by (simp only: list.inject)
    have "?D = filter (\<lambda>d. country d \<noteq> country c) (?S @ ?F)"
      by (rule arg_cong [OF cs, of "filter (\<lambda>d. country d \<noteq> country c)"])
    also have "\<dots> = ?F" by (rule run_split(2) [OF S F])
    finally have DF: "?F = ?D" by (rule sym)
    with 2 have adjD: "countries_adjacent ?D" by blast
    have cs': "cs = ?S @ ?D" using cs unfolding DF .
    have "countries_adjacent (?S @ ?D)" by (rule adjacent_run [OF S D adjD])
    moreover have "dropWhile (\<lambda>d. country d = country c) (?S @ ?D) = ?D"
      by (rule run_split(3) [OF S D])
    ultimately have "countries_adjacent (c # ?S @ ?D)"
      using D by (simp only: countries_adjacent.simps list_all_iff)
    moreover have "countries_adjacent (c # cs) = countries_adjacent (c # ?S @ ?D)"
      by (rule arg_cong [OF cs', of "\<lambda>z. countries_adjacent (c # z)"])
    ultimately show "countries_adjacent (c # cs)" by blast
  next
    assume adj: "countries_adjacent (c # cs)"
    let ?A = "takeWhile (\<lambda>d. country d = country c) cs"
    let ?B = "dropWhile (\<lambda>d. country d = country c) cs"
    have A: "\<forall>a \<in> set ?A. country a = country c" by (auto dest: set_takeWhileD)
    from adj have "list_all (\<lambda>d. country d \<noteq> country c) ?B" by simp
    then have B: "\<forall>b \<in> set ?B. country b \<noteq> country c" by (rule list_all_iff [THEN iffD1])
    have SA: "?S = ?A" using run_split(1) [OF A B] by simp
    have DB: "?D = ?B" using run_split(2) [OF A B] by simp
    have "countries_adjacent cs" using adj by simp
    then have "countries_adjacent ?B" using adjacent_suffix [of ?A ?B] by simp
    then have "countries_adjacent ?D" by (simp only: DB)
    with 2 have "?F = ?D" by blast
    with unfold have "flat (by_country (c # cs)) = c # ?S @ ?D" by (simp only:)
    also have "\<dots> = c # cs" by (simp only: SA DB takeWhile_dropWhile_id)
    finally show "flat (by_country (c # cs)) = c # cs" .
  qed
qed

lemma one_country_adjacent:
  assumes "card (set (map country xs)) \<le> 1"
  shows "countries_adjacent xs"
proof (cases xs)
  case Nil
  then show ?thesis by simp
next
  case (Cons x xs')
  have "\<forall>a \<in> set xs. country a = country x"
  proof
    fix a assume "a \<in> set xs"
    then have "country a \<in> set (map country xs)" "country x \<in> set (map country xs)"
      using Cons by auto
    with assms show "country a = country x"
      by (metis List.finite_set card_le_Suc0_iff_eq One_nat_def)
  qed
  from adjacent_run [OF this, of "[]"] show ?thesis by simp
qed

lemma parseOffsetQuery_Nil: "parseOffsetQuery [] = None"
  by (simp add: parseOffsetQuery_def offset_regex_def)

lemma search_empty:
  "toLowerCase (trim query) = [] \<Longrightarrow>
     search CITIES zones now query = \<lparr>results = [], grouped = [], showGroups = False\<rparr>"
  by (simp add: search_def)

lemma search_offset:
  assumes "parseOffsetQuery (toLowerCase (trim query)) = Some n"
  shows "search CITIES zones now query =
     \<lparr>results = take 12 (filter (offset_matches zones now n) CITIES),
      grouped = by_country (take 12 (filter (offset_matches zones now n) CITIES)),
      showGroups = True\<rparr>"
proof -
  from assms have "toLowerCase (trim query) \<noteq> []"
    using parseOffsetQuery_Nil by auto
  with assms show ?thesis
    by (simp add: search_def Let_def groupByCountry_by_country)
qed

lemma search_text:
  assumes "toLowerCase (trim query) \<noteq> []" "parseOffsetQuery (toLowerCase (trim query)) = None"
  shows "search CITIES zones now query =
     \<lparr>results = free_text_matches CITIES (trim query),
      grouped = by_country (free_text_matches CITIES (trim query)),
      showGroups = (country_matches CITIES (trim query) \<noteq> [] \<or>
                    1 < card (set (map country (free_text_matches CITIES (trim query)))))\<rparr>"
proof -
  let ?q = "toLowerCase (trim query)"
  let ?A = "filter (\<lambda>c. includes_str (toLowerCase (name c)) ?q) CITIES"
  have A: "name_matches CITIES (trim query) = ?A"
    by (simp add: name_matches_def ci_contains_def)
  have B: "country_matches CITIES (trim query) =
             filter (\<lambda>c. name c \<notin> name ` set ?A \<and> includes_str (toLowerCase (country c)) ?q) CITIES"
    unfolding country_matches_def A ci_contains_def
    by (intro filter_cong refl) auto
  show ?thesis
    using assms
    by (simp add: search_def Let_def name_loop_filter country_loop_filter groupByCountry_by_country
        free_text_matches_def A B del: set_filter)
qed

lemma results_le_12: "length (results (search CITIES zones now query)) \<le> 12"
proof (cases "toLowerCase (trim query) = []")
  case True
  then show ?thesis by (simp add: search_empty)
next
  case False
  show ?thesis
  proof (cases "parseOffsetQuery (toLowerCase (trim query))")
    case None
    with False show ?thesis by (simp add: search_text free_text_matches_def)
  next
    case (Some n)
    then show ?thesis by (simp add: search_offset)
  qed
qed

lemma grouped_is_by_country:
  "grouped (search CITIES zones now query) = by_country (results (search CITIES zones now query))"
proof (cases "toLowerCase (trim query) = []")
  case True
  then show ?thesis by (simp add: search_empty)
next
  case False
  show ?thesis
  proof (cases "parseOffsetQuery (toLowerCase (trim query))")
    case None
    with False show ?thesis by (simp add: search_text)
  next
    case (Some n)
    then show ?thesis by (simp add: search_offset)
  qed
qed

lemma no_groups_adjacent:
  assumes "\<not> showGroups (search CITIES zones now query)"
  shows "countries_adjacent (results (search CITIES zones now query))"
proof (cases "toLowerCase (trim query) = []")
  case True
  then show ?thesis by (simp add: search_empty)
next
  case False
  show ?thesis
  proof (cases "parseOffsetQuery (toLowerCase (trim query))")
    case None
    with False assms have "card (set (map country (free_text_matches CITIES (trim query)))) \<le> 1"
      by (simp add: search_text)
    then have "countries_adjacent (free_text_matches CITIES (trim query))"
      by (rule one_country_adjacent)
    with None False show ?thesis by (simp add: search_text)
  next
    case (Some n)
    with assms show ?thesis by (simp add: search_offset)
  qed
qed

lemma flatResults_perm:
  "mset (flatResults (search CITIES zones now query)) = mset (results (search CITIES zones now query))"
  by (cases "showGroups (search CITIES zones now query)")
     (simp_all only: flatResults_def grouped_is_by_country mset_flat_by_country
        not_True_eq_False not_False_eq_True if_True if_False)

lemma flatResults_id_iff:
  "flatResults (search CITIES zones now query) = results (search CITIES zones now query) \<longleftrightarrow>
   countries_adjacent (results (search CITIES zones now query))"
proof (cases "showGroups (search CITIES zones now query)")
  case True
  then show ?thesis
    by (simp only: flatResults_def grouped_is_by_country flat_by_country_id_iff not_True_eq_False if_False)
next
  case False
  then show ?thesis
    using no_groups_adjacent [OF False] by (simp add: flatResults_def)
qed

subsection \<open>The search on the example catalog; claims about the search\<close>

lemma ex_sel:
  "name ex_paris = ''Paris''" "country ex_paris = ''France''" "tz ex_paris = ''Europe/Paris''"
  "name ex_berlin = ''Berlin''" "country ex_berlin = ''Germany''" "tz ex_berlin = ''Europe/Berlin''"
  "name ex_marseille = ''Marseille''" "country ex_marseille = ''France''" "tz ex_marseille = ''Europe/Paris''"
  "name ex_tokyo = ''Tokyo''" "country ex_tokyo = ''Japan''" "tz ex_tokyo = ''Asia/Tokyo''"
  "name ex_london = ''London''" "country ex_london = ''United Kingdom''" "tz ex_london = ''Europe/London''"
  "name ex_atlantis = ''Atlantis''" "country ex_atlantis = ''Nowhere''" "tz ex_atlantis = ''Lost/Atlantis''"
  by (simp_all add: ex_paris_def ex_berlin_def ex_marseille_def ex_tokyo_def ex_london_def ex_atlantis_def)

lemma ex_lower:
  "toLowerCase ''Paris'' = ''paris''" "toLowerCase ''Berlin'' = ''berlin''"
  "toLowerCase ''Marseille'' = ''marseille''" "toLowerCase ''Tokyo'' = ''tokyo''"
  "toLowerCase ''London'' = ''london''" "toLowerCase ''Atlantis'' = ''atlantis''"
  "toLowerCase ''France'' = ''france''" "toLowerCase ''Germany'' = ''germany''"
  "toLowerCase ''Japan'' = ''japan''" "toLowerCase ''United Kingdom'' = ''united kingdom''"
  "toLowerCase ''Nowhere'' = ''nowhere''"
  by (simp_all add: toLowerCase_def lower_char_def Let_def char_of_eq_iff)

lemma ex_distinct:
  "distinct [ex_paris, ex_berlin, ex_marseille, ex_tokyo, ex_london, ex_atlantis]"
  by (simp add: ex_paris_def ex_berlin_def ex_marseille_def ex_tokyo_def ex_london_def ex_atlantis_def)

lemma ex_queries:
  "toLowerCase (trim ''R'') = ''r''" "trim ''R'' = ''R''"
  "toLowerCase (trim ''fra'') = ''fra''" "trim ''fra'' = ''fra''"
  "toLowerCase (trim '' An '') = ''an''" "trim '' An '' = ''An''" "toLowerCase ''An'' = ''an''"
  "toLowerCase (trim '' UTC+1 '') = ''utc+1''"
  "toLowerCase ''R'' = ''r''" "toLowerCase ''fra'' = ''fra''"
  by (simp_all add: toLowerCase_def trim_def is_space_def lower_char_def Let_def char_of_eq_iff)

lemma ex_parse:
  "parseOffsetQuery ''r'' = None" "parseOffsetQuery ''fra'' = None" "parseOffsetQuery ''an'' = None"
  "parseOffsetQuery ''utc+1'' = Some 60"
  by (simp_all add: parseOffsetQuery_def offset_regex_def is_space_def is_digit_def parseInt_def Let_def)

lemma ex_r:
  "free_text_matches [ex_paris, ex_berlin, ex_marseille] ''R'' = [ex_paris, ex_berlin, ex_marseille]"
  "country_matches [ex_paris, ex_berlin, ex_marseille] ''R'' = []"
  by (simp_all add: free_text_matches_def name_matches_def country_matches_def ci_contains_def ex_sel ex_lower ex_queries)

lemma ex_group_r:
  "by_country [ex_paris, ex_berlin, ex_marseille] = [(''France'', [ex_paris, ex_marseille]), (''Germany'', [ex_berlin])]"
  by (simp add: ex_sel)

text \<open>
  C1, as stated, fails: in a catalog where a city of another country stands between two
  cities of one country, the flattened groups are a different sequence from the result
  list.
\<close>

theorem C1_counterexample:
  "results (search [ex_paris, ex_berlin, ex_marseille] ex_zones 0 ''R'') = [ex_paris, ex_berlin, ex_marseille] \<and>
   flat (grouped (search [ex_paris, ex_berlin, ex_marseille] ex_zones 0 ''R'')) = [ex_paris, ex_marseille, ex_berlin] \<and>
   flatResults (search [ex_paris, ex_berlin, ex_marseille] ex_zones 0 ''R'') = [ex_paris, ex_marseille, ex_berlin] \<and>
   flat (grouped (search [ex_paris, ex_berlin, ex_marseille] ex_zones 0 ''R''))
     \<noteq> results (search [ex_paris, ex_berlin, ex_marseille] ex_zones 0 ''R'')"
proof -
  have s: "search [ex_paris, ex_berlin, ex_marseille] ex_zones 0 ''R'' =
      \<lparr>results = [ex_paris, ex_berlin, ex_marseille],
       grouped = [(''France'', [ex_paris, ex_marseille]), (''Germany'', [ex_berlin])],
       showGroups = True\<rparr>"
    by (simp add: search_text ex_queries ex_parse ex_r ex_group_r ex_sel card_insert_if)
  have d: "ex_berlin \<noteq> ex_marseille" using ex_distinct by simp
  show ?thesis using d by (simp add: s flatResults_def)
qed

text \<open>
  C1, amended: for every catalog and every query the groups are the partition of the
  result list by country (countries in the order of their first city, the cities of a
  country in their order in the list); the flattened sequence has the same cities as
  the result list, each as often; and it is the same sequence as the result list
  exactly when the cities of each country stand next to each other in the result list.
  The same holds of \<open>flatResults\<close>, the sequence that the keyboard walks.
\<close>

theorem C1_grouping_stable:
  "grouped (search CITIES zones now query) = by_country (results (search CITIES zones now query)) \<and>
   mset (flat (grouped (search CITIES zones now query))) = mset (results (search CITIES zones now query)) \<and>
   (flat (grouped (search CITIES zones now query)) = results (search CITIES zones now query))
     = countries_adjacent (results (search CITIES zones now query)) \<and>
   (flatResults (search CITIES zones now query) = results (search CITIES zones now query))
     = countries_adjacent (results (search CITIES zones now query))"
proof -
  let ?r = "search CITIES zones now query"
  have g: "grouped ?r = by_country (results ?r)" by (rule grouped_is_by_country)
  have m: "mset (flat (grouped ?r)) = mset (results ?r)"
    unfolding g by (rule mset_flat_by_country)
  have i: "(flat (grouped ?r) = results ?r) = countries_adjacent (results ?r)"
    unfolding g by (rule flat_by_country_id_iff)
  have f: "(flatResults ?r = results ?r) = countries_adjacent (results ?r)"
    by (rule flatResults_id_iff)
  from g m i f show ?thesis by blast
qed

lemma ex_fra:
  "free_text_matches ex_catalog ''fra'' = [ex_paris, ex_marseille]"
  "country_matches ex_catalog ''fra'' = [ex_paris, ex_marseille]"
  by (simp_all add: free_text_matches_def name_matches_def country_matches_def ci_contains_def ex_sel ex_lower ex_queries ex_catalog_def)

theorem C1_witness:
  "results (search ex_catalog ex_zones 0 ''fra'') = [ex_paris, ex_marseille] \<and>
   countries_adjacent [ex_paris, ex_marseille] \<and>
   grouped (search ex_catalog ex_zones 0 ''fra'') = [(''France'', [ex_paris, ex_marseille])] \<and>
   flatResults (search ex_catalog ex_zones 0 ''fra'') = [ex_paris, ex_marseille]"
proof -
  have r: "results (search ex_catalog ex_zones 0 ''fra'') = [ex_paris, ex_marseille]"
    by (simp add: search_text ex_queries ex_parse ex_fra)
  have a: "countries_adjacent [ex_paris, ex_marseille]" by (simp add: ex_sel)
  have g: "by_country [ex_paris, ex_marseille] = [(''France'', [ex_paris, ex_marseille])]"
    by (simp add: ex_sel)
  show ?thesis
    using C1_grouping_stable [of ex_catalog ex_zones 0 "''fra''"] a g by (simp add: r ex_sel)
qed

lemma offset_matches_iff: "offset_matches zones now n = (\<lambda>c. zones now (tz c) = Minutes n)"
proof
  fix c show "offset_matches zones now n c = (zones now (tz c) = Minutes n)"
    by (cases "zones now (tz c)") (auto simp: offset_matches_def)
qed

lemma ex_an:
  "free_text_matches ex_catalog ''An'' = [ex_atlantis, ex_paris, ex_berlin, ex_marseille, ex_tokyo]"
  using ex_distinct
  by (simp add: free_text_matches_def name_matches_def country_matches_def ci_contains_def
      ex_sel ex_lower ex_queries ex_catalog_def)

lemma ex_utc1:
  "filter (\<lambda>c. ex_zones 0 (tz c) = Minutes 60) ex_catalog = [ex_paris, ex_berlin, ex_marseille]"
  by (simp add: ex_catalog_def ex_zones_def ex_sel)

text \<open>
  C4: for a query that is not empty and not an offset, the result list is the cities
  whose name contains the query (ignoring case), in catalog order, then the cities not
  among them whose country contains it, in catalog order, cut to 12; the result list
  never has more than 12 elements, whatever the query.
\<close>

theorem C4_free_text:
  "(toLowerCase (trim query) \<noteq> [] \<longrightarrow> parseOffsetQuery (toLowerCase (trim query)) = None \<longrightarrow>
      results (search CITIES zones now query) = free_text_matches CITIES (trim query))
   \<and> length (results (search CITIES zones now query)) \<le> 12"
  using search_text [of query CITIES zones now] results_le_12 [of CITIES zones now query]
  by simp

theorem C4_witness:
  "toLowerCase (trim '' An '') \<noteq> [] \<and> parseOffsetQuery (toLowerCase (trim '' An '')) = None \<and>
   name_matches ex_catalog ''An'' = [ex_atlantis] \<and>
   country_matches ex_catalog ''An'' = [ex_paris, ex_berlin, ex_marseille, ex_tokyo] \<and>
   results (search ex_catalog ex_zones 0 '' An '') = [ex_atlantis, ex_paris, ex_berlin, ex_marseille, ex_tokyo]"
proof -
  have n: "name_matches ex_catalog ''An'' = [ex_atlantis]"
    by (simp add: name_matches_def ci_contains_def ex_sel ex_lower ex_queries ex_catalog_def)
  have c: "country_matches ex_catalog ''An'' = [ex_paris, ex_berlin, ex_marseille, ex_tokyo]"
    using ex_distinct
    by (simp add: name_matches_def country_matches_def ci_contains_def ex_sel ex_lower ex_queries ex_catalog_def)
  show ?thesis
    using C4_free_text [of "'' An ''" ex_catalog ex_zones 0] n c
    by (simp add: ex_queries ex_parse ex_an)
qed

text \<open>
  C5: when the query parses as an offset, the result list is the cities of the catalog,
  in catalog order and cut to 12, whose zone has exactly that offset at the one instant
  \<open>now\<close>; the results are shown grouped by country; a city whose zone lookup fails (it
  throws, or gives no number) is left out, and the search still returns its result.
\<close>

theorem C5_offset_search:
  "parseOffsetQuery (toLowerCase (trim query)) = Some n \<longrightarrow>
     results (search CITIES zones now query) =
       take 12 (filter (\<lambda>c. zones now (tz c) = Minutes n) CITIES) \<and>
     showGroups (search CITIES zones now query) \<and>
     grouped (search CITIES zones now query) = by_country (results (search CITIES zones now query)) \<and>
     flatResults (search CITIES zones now query) = flat (by_country (results (search CITIES zones now query))) \<and>
     (\<forall>c \<in> set (results (search CITIES zones now query)). c \<in> set CITIES \<and> zones now (tz c) = Minutes n) \<and>
     (\<forall>c. zones now (tz c) = Throws \<or> zones now (tz c) = NotANumber \<longrightarrow>
          c \<notin> set (results (search CITIES zones now query)))"
proof
  assume p: "parseOffsetQuery (toLowerCase (trim query)) = Some n"
  let ?m = "take 12 (filter (\<lambda>c. zones now (tz c) = Minutes n) CITIES)"
  have s: "search CITIES zones now query =
             \<lparr>results = ?m, grouped = by_country ?m, showGroups = True\<rparr>"
    using search_offset [OF p, of CITIES zones now] by (simp add: offset_matches_iff)
  have in_m: "c \<in> set CITIES \<and> zones now (tz c) = Minutes n" if "c \<in> set ?m" for c
    using in_set_takeD [OF that] by simp
  have out: "c \<notin> set ?m" if "zones now (tz c) = Throws \<or> zones now (tz c) = NotANumber" for c :: City
  proof
    assume "c \<in> set ?m"
    then have "zones now (tz c) = Minutes n" by (rule in_m [THEN conjunct2])
    with that show False by simp
  qed
  show "results (search CITIES zones now query) =
       take 12 (filter (\<lambda>c. zones now (tz c) = Minutes n) CITIES) \<and>
     showGroups (search CITIES zones now query) \<and>
     grouped (search CITIES zones now query) = by_country (results (search CITIES zones now query)) \<and>
     flatResults (search CITIES zones now query) = flat (by_country (results (search CITIES zones now query))) \<and>
     (\<forall>c \<in> set (results (search CITIES zones now query)). c \<in> set CITIES \<and> zones now (tz c) = Minutes n) \<and>
     (\<forall>c. zones now (tz c) = Throws \<or> zones now (tz c) = NotANumber \<longrightarrow>
          c \<notin> set (results (search CITIES zones now query)))"
  proof (intro conjI ballI allI impI)
    show "results (search CITIES zones now query) = ?m" by (simp add: s)
    show "showGroups (search CITIES zones now query)" by (simp add: s)
    show "grouped (search CITIES zones now query) = by_country (results (search CITIES zones now query))"
      by (simp add: s)
    show "flatResults (search CITIES zones now query) = flat (by_country (results (search CITIES zones now query)))"
      by (simp add: s flatResults_def)
  next
    fix c assume "c \<in> set (results (search CITIES zones now query))"
    then have "c \<in> set ?m" by (simp add: s)
    then show "c \<in> set CITIES" "zones now (tz c) = Minutes n" using in_m by blast+
  next
    fix c :: City assume "zones now (tz c) = Throws \<or> zones now (tz c) = NotANumber"
    then have "c \<notin> set ?m" by (rule out)
    then show "c \<notin> set (results (search CITIES zones now query))" by (simp add: s)
  qed
qed

theorem C5_witness:
  "parseOffsetQuery (toLowerCase (trim '' UTC+1 '')) = Some 60 \<and>
   results (search ex_catalog ex_zones 0 '' UTC+1 '') = [ex_paris, ex_berlin, ex_marseille] \<and>
   grouped (search ex_catalog ex_zones 0 '' UTC+1 '') =
     [(''France'', [ex_paris, ex_marseille]), (''Germany'', [ex_berlin])] \<and>
   flatResults (search ex_catalog ex_zones 0 '' UTC+1 '') = [ex_paris, ex_marseille, ex_berlin] \<and>
   ex_zones 0 (tz ex_atlantis) = Throws \<and>
   ex_atlantis \<notin> set (results (search ex_catalog ex_zones 0 '' UTC+1 ''))"
proof -
  have p: "parseOffsetQuery (toLowerCase (trim '' UTC+1 '')) = Some 60"
    by (simp add: ex_queries ex_parse)
  have z: "ex_zones 0 (tz ex_atlantis) = Throws"
    by (simp add: ex_zones_def ex_sel)
  have d: "ex_atlantis \<notin> set [ex_paris, ex_berlin, ex_marseille]"
    using ex_distinct by auto
  show ?thesis
    using C5_offset_search [of "'' UTC+1 ''" 60 ex_catalog ex_zones 0] p z d
    by (simp add: ex_utc1 ex_group_r ex_sel)
qed

subsection \<open>The pin set\<close>

lemma findIndex_at_range: "findIndex_at k P xs = - 1 \<or> k \<le> findIndex_at k P xs"
proof (induction xs arbitrary: k)
  case Nil
  then show ?case by simp
next
  case (Cons x xs)
  from Cons [of "k + 1"] show ?case by auto
qed

lemma findIndex_at_found:
  "0 \<le> k \<Longrightarrow> 0 \<le> findIndex_at k P xs \<longleftrightarrow> (\<exists>x \<in> set xs. P x)"
  by (induction xs arbitrary: k) auto

lemma findIndex_found: "0 \<le> findIndex P xs \<longleftrightarrow> (\<exists>x \<in> set xs. P x)"
  by (simp add: findIndex_def findIndex_at_found)

lemma filter_index_keep:
  "e < k \<Longrightarrow> filter_index_at k (\<lambda>_ i. i \<noteq> e) xs = xs"
  by (induction xs arbitrary: k) auto

lemma filter_index_remove:
  assumes "findIndex_at k P xs = e" "0 \<le> e" "0 \<le> k"
  shows "filter_index_at k (\<lambda>_ i. i \<noteq> e) xs = remove_first P xs"
  using assms
proof (induction xs arbitrary: k)
  case Nil
  then show ?case by simp
next
  case (Cons x xs)
  show ?case
  proof (cases "P x")
    case True
    with Cons.prems have "e = k" by simp
    then show ?thesis using True filter_index_keep [of k "k + 1" xs] by simp
  next
    case False
    with Cons.prems have e: "findIndex_at (k + 1) P xs = e" by simp
    with findIndex_at_range [of "k + 1" P xs] Cons.prems have "k < e" by auto
    with Cons.IH [OF e] Cons.prems False show ?thesis by simp
  qed
qed

lemma pin_update_cases:
  "pin_update city prev =
     (if name city \<in> set (map name prev) then remove_first (\<lambda>c. name c = name city) prev
      else if length prev \<ge> 4 then prev else prev @ [city])"
proof (cases "name city \<in> set (map name prev)")
  case True
  then have f: "0 \<le> findIndex (\<lambda>c. name c = name city) prev"
    by (auto simp: findIndex_found)
  have "filter_index (\<lambda>_ i. i \<noteq> findIndex (\<lambda>c. name c = name city) prev) prev
          = remove_first (\<lambda>c. name c = name city) prev"
    using filter_index_remove [of 0 "\<lambda>c. name c = name city" prev, OF refl] f
    by (simp add: filter_index_def findIndex_def)
  with True f show ?thesis by (simp add: pin_update_def)
next
  case False
  then have "\<not> 0 \<le> findIndex (\<lambda>c. name c = name city) prev"
    unfolding findIndex_found by (simp add: image_iff) metis
  with False show ?thesis by (simp add: pin_update_def)
qed

lemma remove_first_length:
  "\<exists>x \<in> set xs. P x \<Longrightarrow> length (remove_first P xs) = length xs - 1"
proof (induction xs)
  case Nil
  then show ?case by simp
next
  case (Cons a xs)
  show ?case
  proof (cases "P a")
    case True
    then show ?thesis by simp
  next
    case False
    with Cons.prems obtain x where x: "x \<in> set xs" "P x" by auto
    then have "0 < length xs" by (auto simp: length_pos_if_in_set)
    moreover from x Cons.IH have "length (remove_first P xs) = length xs - 1" by blast
    ultimately show ?thesis using False by simp
  qed
qed

lemma remove_first_subset: "set (remove_first P xs) \<subseteq> set xs"
  by (induction xs) auto

lemma remove_first_distinct:
  "distinct (map f xs) \<Longrightarrow> distinct (map f (remove_first P xs))"
proof (induction xs)
  case Nil
  then show ?case by simp
next
  case (Cons x xs)
  then show ?case using remove_first_subset [of P xs] by auto
qed


lemma pin_update_inv:
  assumes "length prev \<le> 4" "distinct (map name prev)"
  shows "length (pin_update city prev) \<le> 4 \<and> distinct (map name (pin_update city prev))"
proof (cases "name city \<in> set (map name prev)")
  case True
  then have "\<exists>x \<in> set prev. name x = name city" by auto
  from remove_first_length [OF this] assms remove_first_distinct [OF assms(2)] True
  show ?thesis by (simp add: pin_update_cases)
next
  case False
  with assms show ?thesis by (auto simp: pin_update_cases)
qed

lemma step_inv: "pin_inv st \<Longrightarrow> pin_inv (step st a)"
proof (cases a)
  case (Pin city)
  assume "pin_inv st"
  then show ?thesis
    using pin_update_inv [of "pinnedCities st" city]
    by (simp add: Pin pin_inv_def handleCityPin_def)
next
  case (Select city)
  assume "pin_inv st"
  then show ?thesis
    using pin_update_inv [of "pinnedCities st" city]
    by (simp add: Select pin_inv_def handleSelect_def handleCityPin_def)
next
  case ClearAll
  then show ?thesis by (simp add: pin_inv_def clearAll_def)
next
  case (Hide city)
  assume "pin_inv st"
  then show ?thesis
    using pin_update_inv [of "pinnedCities st" city]
    by (simp add: Hide pin_inv_def hideFromMap_def handleCityPin_def Let_def)
qed

lemma run_inv: "pin_inv st \<Longrightarrow> pin_inv (foldl step st acts)"
  by (induction acts arbitrary: st) (auto intro: step_inv)

lemma initial_inv: "pin_inv initial"
  by (simp add: pin_inv_def initial_def)

text \<open>
  The actions by themselves: from the state before the URL is read, and from any state
  with at most four pinned cities and no name twice, every sequence of actions keeps both
  properties; pinning a city that is not pinned while four are pinned leaves the set as
  it is; pinning a city that is not pinned while fewer than four are pinned puts it at
  the end and keeps the order of the others.
\<close>

lemma pin_actions_keep_inv:
  "pin_inv (foldl step initial acts)
   \<and> (pin_inv st \<longrightarrow> pin_inv (step st a) \<and> pin_inv (foldl step st acts))
   \<and> (length (pinnedCities st) = 4 \<and> name city \<notin> set (map name (pinnedCities st)) \<longrightarrow>
        pinnedCities (handleCityPin st city) = pinnedCities st)
   \<and> (length (pinnedCities st) < 4 \<and> name city \<notin> set (map name (pinnedCities st)) \<longrightarrow>
        pinnedCities (handleCityPin st city) = pinnedCities st @ [city])"
  using run_inv [OF initial_inv, of acts] step_inv [of st a] run_inv [of st acts]
  by (simp add: handleCityPin_def pin_update_cases)

lemma ex_run4:
  "pinnedCities (foldl step initial [Pin ex_paris, Pin ex_berlin, Pin ex_marseille, Select ex_tokyo])
     = [ex_paris, ex_berlin, ex_marseille, ex_tokyo]"
  by (simp add: handleCityPin_def handleSelect_def pin_update_cases initial_def ex_sel)

lemma pin_actions_example:
  "pin_inv (foldl step initial [Pin ex_paris, Pin ex_berlin, Pin ex_marseille, Select ex_tokyo]) \<and>
   pinnedCities (foldl step initial [Pin ex_paris, Pin ex_berlin, Pin ex_marseille, Select ex_tokyo])
     = [ex_paris, ex_berlin, ex_marseille, ex_tokyo] \<and>
   pinnedCities (handleCityPin (foldl step initial [Pin ex_paris, Pin ex_berlin, Pin ex_marseille, Select ex_tokyo]) ex_london)
     = [ex_paris, ex_berlin, ex_marseille, ex_tokyo] \<and>
   pinnedCities (handleCityPin (foldl step initial [Pin ex_paris, Pin ex_berlin]) ex_marseille)
     = [ex_paris, ex_berlin, ex_marseille] \<and>
   pin_inv (step (foldl step initial [Pin ex_paris, Pin ex_berlin]) (Pin ex_berlin))"
proof -
  let ?s4 = "foldl step initial [Pin ex_paris, Pin ex_berlin, Pin ex_marseille, Select ex_tokyo]"
  let ?s2 = "foldl step initial [Pin ex_paris, Pin ex_berlin]"
  have p2: "pinnedCities ?s2 = [ex_paris, ex_berlin]"
    by (simp add: handleCityPin_def pin_update_cases initial_def ex_sel)
  have i2: "pin_inv ?s2"
    by (simp only: pin_inv_def p2) (simp add: ex_sel)
  have a: "length (pinnedCities ?s4) = 4 \<and> name ex_london \<notin> set (map name (pinnedCities ?s4))"
    by (simp only: ex_run4) (simp add: ex_sel)
  have b: "length (pinnedCities ?s2) < 4 \<and> name ex_marseille \<notin> set (map name (pinnedCities ?s2))"
    by (simp only: p2) (simp add: ex_sel)
  from pin_actions_keep_inv [of "[Pin ex_paris, Pin ex_berlin, Pin ex_marseille, Select ex_tokyo]" ?s4 "Pin ex_berlin" ex_london]
    pin_actions_keep_inv [of "[]" ?s2 "Pin ex_berlin" ex_marseille] a b i2
  show ?thesis by (simp only: ex_run4 p2) simp
qed



text \<open>
  C10: \<open>handleCityPin\<close> also takes the city's name out of the hidden set and touches no
  other entry; when the name is not hidden the set is returned as it is; so the city,
  when it is then pinned (or is a featured city), is among the visible cities again.
\<close>

theorem C10_unhide:
  "hiddenCities (handleCityPin st city) = hiddenCities st - {name city}
   \<and> name city \<notin> hiddenCities (handleCityPin st city)
   \<and> (n \<noteq> name city \<longrightarrow> (n \<in> hiddenCities (handleCityPin st city)) = (n \<in> hiddenCities st))
   \<and> (name city \<notin> hiddenCities st \<longrightarrow>
        unhide_update city (hiddenCities st) = hiddenCities st \<and>
        hiddenCities (handleCityPin st city) = hiddenCities st)
   \<and> (city \<in> set CITIES \<and>
        (name city \<in> set (map name (pinnedCities (handleCityPin st city))) \<or> name city \<in> FEATURED) \<longrightarrow>
        city \<in> set (visibleCities CITIES FEATURED (handleCityPin st city)))"
  by (auto simp: handleCityPin_def unhide_update_def visibleCities_def Let_def)

theorem C10_witness:
  "ex_tokyo \<in> set ex_catalog \<and>
   ex_tokyo \<notin> set (visibleCities ex_catalog {''Tokyo'', ''Paris''} (initial\<lparr>hiddenCities := {''Tokyo'', ''Berlin''}\<rparr>)) \<and>
   hiddenCities (handleCityPin (initial\<lparr>hiddenCities := {''Tokyo'', ''Berlin''}\<rparr>) ex_tokyo) = {''Berlin''} \<and>
   pinnedCities (handleCityPin (initial\<lparr>hiddenCities := {''Tokyo'', ''Berlin''}\<rparr>) ex_tokyo) = [ex_tokyo] \<and>
   ex_tokyo \<in> set (visibleCities ex_catalog {''Tokyo'', ''Paris''}
                     (handleCityPin (initial\<lparr>hiddenCities := {''Tokyo'', ''Berlin''}\<rparr>) ex_tokyo)) \<and>
   name ex_london \<notin> {''Tokyo'', ''Berlin''} \<and>
   hiddenCities (handleCityPin (initial\<lparr>hiddenCities := {''Tokyo'', ''Berlin''}\<rparr>) ex_london) = {''Tokyo'', ''Berlin''}"
proof -
  let ?st = "initial\<lparr>hiddenCities := {''Tokyo'', ''Berlin''}\<rparr>"
  have m: "ex_tokyo \<in> set ex_catalog" by (simp add: ex_catalog_def)
  have h: "hiddenCities ?st - {name ex_tokyo} = {''Berlin''}" by (auto simp: ex_sel)
  have p: "pinnedCities (handleCityPin ?st ex_tokyo) = [ex_tokyo]"
    by (simp add: handleCityPin_def pin_update_cases initial_def)
  have before: "ex_tokyo \<notin> set (visibleCities ex_catalog {''Tokyo'', ''Paris''} ?st)"
    by (simp add: visibleCities_def initial_def ex_sel)
  have l: "name ex_london \<notin> hiddenCities ?st" by (simp add: ex_sel)
  from C10_unhide [of ?st ex_tokyo "''Berlin''" ex_catalog "{''Tokyo'', ''Paris''}"]
    C10_unhide [of ?st ex_london "''Berlin''" ex_catalog "{''Tokyo'', ''Paris''}"]
    m h p before l
  show ?thesis by (simp add: ex_sel)
qed

subsection \<open>The URL round trip\<close>

lemma ex_sync:
  "syncUrl ''/'' [ex_tokyo, ex_london] ''America/New_York'' = ''/?compare=Tokyo,London&home=America/New_York''"
  "syncUrl ''/'' [ex_tokyo, ex_london] ''Etc/GMT+5'' = ''/?compare=Tokyo,London&home=Etc/GMT+5''"
  by (simp_all add: syncUrl_def encode_spaces_def ex_sel)

lemma ex_location_search:
  "location_search ''/?compare=Tokyo,London&home=America/New_York'' = ''?compare=Tokyo,London&home=America/New_York''"
  "location_search ''/?compare=Tokyo,London&home=Etc/GMT+5'' = ''?compare=Tokyo,London&home=Etc/GMT+5''"
  by (simp_all add: location_search_def)

lemma ex_split_amp:
  "split_on CHR ''&'' ''compare=Tokyo,London&home=America/New_York'' = [''compare=Tokyo,London'', ''home=America/New_York'']"
  "split_on CHR ''&'' ''compare=Tokyo,London&home=Etc/GMT+5'' = [''compare=Tokyo,London'', ''home=Etc/GMT+5'']"
  by simp_all

lemma ex_decode:
  "form_decode ''compare'' = ''compare''" "form_decode ''home'' = ''home''"
  "form_decode ''Tokyo,London'' = ''Tokyo,London''"
  "form_decode ''America/New_York'' = ''America/New_York''"
  "form_decode ''Etc/GMT+5'' = ''Etc/GMT 5''"
  by (simp_all add: form_decode_def)

lemma ex_params:
  "URLSearchParams ''?compare=Tokyo,London&home=America/New_York'' = [(''compare'', ''Tokyo,London''), (''home'', ''America/New_York'')]"
  "URLSearchParams ''?compare=Tokyo,London&home=Etc/GMT+5'' = [(''compare'', ''Tokyo,London''), (''home'', ''Etc/GMT 5'')]"
  by (simp_all add: URLSearchParams_def ex_split_amp ex_decode)

lemma ex_found:
  "trim ''Tokyo'' = ''Tokyo''" "trim ''London'' = ''London''"
  "find (\<lambda>c. name c = ''Tokyo'') ex_catalog = Some ex_tokyo"
  "find (\<lambda>c. name c = ''London'') ex_catalog = Some ex_london"
  by (simp_all add: trim_def is_space_def ex_catalog_def ex_sel)

lemma ex_mount:
  "mountUrl ex_catalog None ''?compare=Tokyo,London&home=America/New_York'' initial
     = initial\<lparr>pinnedCities := [ex_tokyo, ex_london], homeTz := ''America/New_York''\<rparr>"
  "mountUrl ex_catalog None ''?compare=Tokyo,London&home=Etc/GMT+5'' initial
     = initial\<lparr>pinnedCities := [ex_tokyo, ex_london], homeTz := ''Etc/GMT 5''\<rparr>"
  by (simp_all add: mountUrl_def ex_params params_get_def ex_found Let_def List.map_filter_def)

text \<open>The example of the specification: Tokyo and London with the home zone
  \<open>America/New_York\<close> are written as \<open>compare=Tokyo,London&home=America/New_York\<close> and
  read back unchanged.\<close>

lemma url_round_trip_example:
  "syncUrl ''/'' [ex_tokyo, ex_london] ''America/New_York'' = ''/?compare=Tokyo,London&home=America/New_York'' \<and>
   pinnedCities (mountUrl ex_catalog None
      (location_search (syncUrl ''/'' [ex_tokyo, ex_london] ''America/New_York'')) initial) = [ex_tokyo, ex_london] \<and>
   homeTz (mountUrl ex_catalog None
      (location_search (syncUrl ''/'' [ex_tokyo, ex_london] ''America/New_York'')) initial) = ''America/New_York''"
  by (simp add: ex_sync ex_location_search ex_mount)

text \<open>The mount effect does not look for repeated names: a link that names a city twice
  pins it twice.\<close>

lemma mount_repeated_name_example:
  "pinnedCities (mountUrl ex_catalog None ''?compare=Tokyo,Tokyo'' initial) = [ex_tokyo, ex_tokyo]"
  by (simp add: mountUrl_def URLSearchParams_def form_decode_def params_get_def ex_found Let_def
      List.map_filter_def)

lemma remove_first_length_le: "length (remove_first P xs) \<le> length xs"
  by (induction xs) auto

lemma pin_update_length: "length prev \<le> 4 \<Longrightarrow> length (pin_update city prev) \<le> 4"
  using remove_first_length_le [of "\<lambda>c. name c = name city" prev]
  by (simp add: pin_update_cases)

lemma step_length: "length (pinnedCities st) \<le> 4 \<Longrightarrow> length (pinnedCities (step st a)) \<le> 4"
  using pin_update_length [of "pinnedCities st"]
  by (cases a) (simp_all add: handleCityPin_def handleSelect_def clearAll_def hideFromMap_def Let_def)

lemma run_length:
  "length (pinnedCities st) \<le> 4 \<Longrightarrow> length (pinnedCities (foldl step st acts)) \<le> 4"
  by (induction acts arbitrary: st) (auto intro: step_length)

lemma mount_length:
  "length (pinnedCities st) \<le> 4 \<Longrightarrow> length (pinnedCities (mountUrl CITIES browserTz qs st)) \<le> 4"
  by (auto simp: mountUrl_def Let_def split: option.splits)

text \<open>The capacity holds in every run of the program: after the URL is read and after any
  sequence of actions there are at most four pinned cities.\<close>

lemma capacity_always:
  "length (pinnedCities (foldl step (mountUrl CITIES browserTz qs initial) acts)) \<le> 4"
  by (rule run_length, rule mount_length) (simp add: initial_def)

text \<open>
  C6: after any sequence of pin, unpin and clear operations the pinned set should have at
  most four cities and no name twice.  The mount effect pins what the link names without
  looking for repeated names: the link \<open>?compare=Tokyo,Tokyo\<close> pins Tokyo twice, a
  click on Paris then gives Tokyo, Tokyo, Paris, and a click on Tokyo removes only the
  first of the two.
\<close>

theorem C6_loader_repeats:
  "pinnedCities (mountUrl ex_catalog None ''?compare=Tokyo,Tokyo'' initial) = [ex_tokyo, ex_tokyo] \<and>
   pinnedCities (handleCityPin (mountUrl ex_catalog None ''?compare=Tokyo,Tokyo'' initial) ex_paris)
     = [ex_tokyo, ex_tokyo, ex_paris] \<and>
   map name (pinnedCities (handleCityPin (mountUrl ex_catalog None ''?compare=Tokyo,Tokyo'' initial) ex_paris))
     = [''Tokyo'', ''Tokyo'', ''Paris''] \<and>
   \<not> distinct (map name
        (pinnedCities (handleCityPin (mountUrl ex_catalog None ''?compare=Tokyo,Tokyo'' initial) ex_paris))) \<and>
   pinnedCities (handleCityPin (mountUrl ex_catalog None ''?compare=Tokyo,Tokyo'' initial) ex_tokyo)
     = [ex_tokyo]"
proof -
  have m: "pinnedCities (mountUrl ex_catalog None ''?compare=Tokyo,Tokyo'' initial) = [ex_tokyo, ex_tokyo]"
    by (rule mount_repeated_name_example)
  have p: "pin_update ex_paris [ex_tokyo, ex_tokyo] = [ex_tokyo, ex_tokyo, ex_paris]"
    by (simp add: pin_update_cases ex_sel)
  have t: "pin_update ex_tokyo [ex_tokyo, ex_tokyo] = [ex_tokyo]"
    by (simp add: pin_update_cases ex_sel)
  show ?thesis
    by (simp add: handleCityPin_def m p t ex_sel)
qed

text \<open>
  C9: writing the pinned set and the home zone to the URL and reading that URL back should
  give the same pinned set and the same home zone.  The sync effect writes the home zone
  unescaped and the mount effect reads it through \<open>URLSearchParams\<close>, which turns \<open>+\<close>
  into a space: with the pins Tokyo and London and the home zone \<open>Etc/GMT+5\<close> the pins
  come back, the home zone comes back as \<open>Etc/GMT 5\<close>.
\<close>

theorem C9_home_plus_sign:
  "syncUrl ''/'' [ex_tokyo, ex_london] ''Etc/GMT+5'' = ''/?compare=Tokyo,London&home=Etc/GMT+5'' \<and>
   pinnedCities (mountUrl ex_catalog None
      (location_search (syncUrl ''/'' [ex_tokyo, ex_london] ''Etc/GMT+5'')) initial) = [ex_tokyo, ex_london] \<and>
   homeTz (mountUrl ex_catalog None
      (location_search (syncUrl ''/'' [ex_tokyo, ex_london] ''Etc/GMT+5'')) initial) = ''Etc/GMT 5'' \<and>
   homeTz (mountUrl ex_catalog None
      (location_search (syncUrl ''/'' [ex_tokyo, ex_london] ''Etc/GMT+5'')) initial) \<noteq> ''Etc/GMT+5''"
  by (simp add: ex_sync ex_location_search ex_mount)

end
